theory Spec2Isabelle
  imports Complex_Main "HOL-Library.Word"
begin

section \<open>The JavaScript values of a request body\<close>

text \<open>
  The service is an Express handler for \<^verbatim>\<open>POST /api/sync\<close>. Its input is the
  body that \<^verbatim>\<open>bodyParser.json\<close> parsed, so every value below is a JSON value
  or \<^verbatim>\<open>undefined\<close> (a field that is absent).

  A JavaScript string is a sequence of 16-bit code units. \<open>js\<close> writes an ASCII
  literal of the source as such a sequence.
\<close>

type_synonym jstring = "16 word list"

definition js :: "string \<Rightarrow> jstring" where
  "js s = map of_char s"

text \<open>
  A Number is NaN, an infinity or a finite binary64 value, held as the rational it
  denotes. Negative zero is not told apart from zero: the handlers only test a
  number for being falsy and hand it on.
\<close>

datatype number = NaN | Infinity bool | Finite rat

datatype jsval =
    JUndefined
  | JNull
  | JBool bool
  | JNum number
  | JStr jstring
  | JArr "jsval list"
  | JObj "(jstring \<times> jsval) list"

text \<open>
  An exception of the handler: a TypeError of the engine, or the rejection of
  \<^verbatim>\<open>client.query\<close> / \<^verbatim>\<open>pool.connect\<close>. Both carry the text that
  \<^verbatim>\<open>err.message\<close> reads.
\<close>

datatype js_error = TypeError jstring | QueryError jstring

fun message :: "js_error \<Rightarrow> jstring" where
  "message (TypeError m) = m"
| "message (QueryError m) = m"

subsection \<open>Rounding to binary64\<close>

definition pow2 :: "int \<Rightarrow> rat" where
  "pow2 e = (if 0 \<le> e then 2 ^ nat e else 1 / 2 ^ nat (- e))"

definition pow10 :: "int \<Rightarrow> rat" where
  "pow10 e = (if 0 \<le> e then 10 ^ nat e else 1 / 10 ^ nat (- e))"

function bit_length :: "int \<Rightarrow> nat" where
  "bit_length n = (if n \<le> 0 then 0 else Suc (bit_length (n div 2)))"
  by pat_completeness auto
termination
  by (relation "measure nat") auto

declare bit_length.simps [simp del]

text \<open>\<open>floor_log2 a\<close> is the \<open>k\<close> with \<open>2^k \<le> a < 2^(k+1)\<close>, for \<open>a > 0\<close>.\<close>

definition floor_log2 :: "rat \<Rightarrow> int" where
  "floor_log2 a =
     (let (n, d) = quotient_of a;
          k = int (bit_length n) - int (bit_length d)
      in if pow2 k \<le> a then k else k - 1)"

definition round_half_even :: "rat \<Rightarrow> int" where
  "round_half_even t =
     (let f = \<lfloor>t\<rfloor>; r = t - of_int f
      in if r < 1 / 2 then f else if 1 / 2 < r then f + 1 else if even f then f else f + 1)"

text \<open>
  The Number value for a mathematical value: round to nearest, ties to even, with
  53 bits of significand, the smallest exponent \<open>-1074\<close> and overflow to infinity.
\<close>

definition round64 :: "rat \<Rightarrow> number" where
  "round64 q =
     (if q = 0 then Finite 0
      else
        let a = \<bar>q\<bar>;
            e = max (floor_log2 a - 52) (- 1074);
            m = round_half_even (a / pow2 e);
            v = of_int m * pow2 e
        in if 2 ^ 1024 \<le> v then Infinity (q < 0)
           else Finite (if q < 0 then - v else v))"

subsection \<open>Strings: trim, parseInt, parseFloat\<close>

text \<open>
  White space and line terminators of ECMAScript (\<^verbatim>\<open>String.prototype.trim\<close>
  and the numeric parsers skip the same set).
\<close>

definition isWhiteSpace :: "16 word \<Rightarrow> bool" where
  "isWhiteSpace c \<longleftrightarrow>
     c \<in> {0x09, 0x0A, 0x0B, 0x0C, 0x0D, 0x20, 0xA0, 0x1680, 0x2028, 0x2029,
          0x202F, 0x205F, 0x3000, 0xFEFF}
     \<or> (0x2000 \<le> c \<and> c \<le> 0x200A)"

definition trim :: "jstring \<Rightarrow> jstring" where
  "trim s = rev (dropWhile isWhiteSpace (rev (dropWhile isWhiteSpace s)))"

definition isDigit :: "16 word \<Rightarrow> bool" where
  "isDigit c \<longleftrightarrow> 0x30 \<le> c \<and> c \<le> 0x39"

definition isHexDigit :: "16 word \<Rightarrow> bool" where
  "isHexDigit c \<longleftrightarrow>
     isDigit c \<or> (0x41 \<le> c \<and> c \<le> 0x46) \<or> (0x61 \<le> c \<and> c \<le> 0x66)"

definition digitValue :: "16 word \<Rightarrow> int" where
  "digitValue c =
     (if isDigit c then uint c - 48
      else if 0x41 \<le> c \<and> c \<le> 0x46 then uint c - 55
      else uint c - 87)"

definition digitsValue :: "int \<Rightarrow> jstring \<Rightarrow> int" where
  "digitsValue radix ds = foldl (\<lambda>a c. a * radix + digitValue c) 0 ds"

definition isSign :: "16 word \<Rightarrow> bool" where
  "isSign c \<longleftrightarrow> c = 0x2B \<or> c = 0x2D"

definition stripSign :: "jstring \<Rightarrow> bool \<times> jstring" where
  "stripSign s =
     (case s of
        [] \<Rightarrow> (False, [])
      | c # r \<Rightarrow> if isSign c then (c = 0x2D, r) else (False, s))"

text \<open>
  \<^verbatim>\<open>parseInt(string)\<close> with no radix, after its argument became a string: skip
  white space, read a sign, read \<^verbatim>\<open>0x\<close>/\<^verbatim>\<open>0X\<close> as radix 16, take the longest
  run of digits; no digit gives NaN. The value is the Number for the integer read (an
  engine may replace the decimal digits after the twentieth by zeros first; that is not
  modelled, and it changes neither NaN nor zero).
\<close>

definition parseInt :: "jstring \<Rightarrow> number" where
  "parseInt inputString =
     (let (neg, S) = stripSign (dropWhile isWhiteSpace inputString);
          hex = (case S of a # b # _ \<Rightarrow> a = 0x30 \<and> (b = 0x78 \<or> b = 0x58) | _ \<Rightarrow> False);
          Z = (if hex then takeWhile isHexDigit (drop 2 S) else takeWhile isDigit S);
          mathInt = digitsValue (if hex then 16 else 10) Z
      in if Z = [] then NaN
         else round64 (of_int (if neg then - mathInt else mathInt)))"

text \<open>The exponent part \<^verbatim>\<open>e[+-]digits\<close> of a decimal literal, 0 when there is none.\<close>

definition exponentPart :: "jstring \<Rightarrow> int" where
  "exponentPart s =
     (case s of
        [] \<Rightarrow> 0
      | c # r \<Rightarrow>
          if c = 0x65 \<or> c = 0x45 then
            (let (neg, r') = stripSign r;
                 ds = takeWhile isDigit r'
             in if ds = [] then 0
                else if neg then - digitsValue 10 ds else digitsValue 10 ds)
          else 0)"

text \<open>
  \<^verbatim>\<open>parseFloat(string)\<close>, after its argument became a string: the longest
  prefix of the trimmed string that is a StrDecimalLiteral; none gives NaN.
\<close>

definition parseFloat :: "jstring \<Rightarrow> number" where
  "parseFloat inputString =
     (let (neg, U) = stripSign (dropWhile isWhiteSpace inputString)
      in if take 8 U = js ''Infinity'' then Infinity neg
         else
           let ip = takeWhile isDigit U;
               r1 = dropWhile isDigit U;
               dot = (r1 \<noteq> [] \<and> hd r1 = 0x2E);
               fp = (if dot then takeWhile isDigit (tl r1) else []);
               r2 = (if dot then dropWhile isDigit (tl r1) else r1);
               mv = of_int (digitsValue 10 (ip @ fp))
                      * pow10 (exponentPart r2 - int (length fp))
           in if ip = [] \<and> fp = [] then NaN
              else round64 (if neg then - mv else mv))"

subsection \<open>Conversions and tests on values\<close>

text \<open>
  An object is the list of its own properties, as \<^verbatim>\<open>JSON.parse\<close> made them (a
  key occurs once). A JSON value is never callable, so an own property named
  \<^verbatim>\<open>toString\<close> hides \<^verbatim>\<open>Object.prototype.toString\<close> behind a value that
  cannot be called.
\<close>

definition hasOwn :: "(jstring \<times> jsval) list \<Rightarrow> jstring \<Rightarrow> bool" where
  "hasOwn ps k \<longleftrightarrow> map_of ps k \<noteq> None"

text \<open>
  The abstract operation ToString, as \<^verbatim>\<open>parseInt\<close>, \<^verbatim>\<open>RegExp.prototype.test\<close>
  and a template literal apply it. \<open>nts\<close> is the engine's Number-to-string
  conversion. An array is joined with commas, \<^verbatim>\<open>null\<close> and \<^verbatim>\<open>undefined\<close>
  elements giving the empty string; a plain object gives \<^verbatim>\<open>[object Object]\<close>;
  an object with an own \<^verbatim>\<open>toString\<close> has no primitive value and ToString throws.
\<close>

fun ToString :: "(number \<Rightarrow> jstring) \<Rightarrow> jsval \<Rightarrow> js_error + jstring"
  and join :: "(number \<Rightarrow> jstring) \<Rightarrow> jsval list \<Rightarrow> js_error + jstring" where
  "ToString nts JUndefined = Inr (js ''undefined'')"
| "ToString nts JNull = Inr (js ''null'')"
| "ToString nts (JBool b) = Inr (if b then js ''true'' else js ''false'')"
| "ToString nts (JNum n) = Inr (nts n)"
| "ToString nts (JStr s) = Inr s"
| "ToString nts (JArr xs) = join nts xs"
| "ToString nts (JObj ps) =
     (if hasOwn ps (js ''toString'')
      then Inl (TypeError (js ''Cannot convert object to primitive value''))
      else Inr (js ''[object Object]''))"
| "join nts [] = Inr []"
| "join nts (x # xs) =
     (case (if x = JUndefined \<or> x = JNull then Inr [] else ToString nts x) of
        Inl e \<Rightarrow> Inl e
      | Inr s \<Rightarrow>
          if xs = [] then Inr s
          else (case join nts xs of
                  Inl e \<Rightarrow> Inl e
                | Inr t \<Rightarrow> Inr (s @ js '','' @ t)))"

text \<open>A name between apostrophes, as the engine's messages print it.\<close>

definition quoted :: "jstring \<Rightarrow> jstring" where
  "quoted k = [0x27] @ k @ [0x27]"

text \<open>
  The method call \<^verbatim>\<open>v.toString()\<close>; \<open>callee\<close> is the text the engine prints
  for the expression that is not a function.
\<close>

definition toString_call :: "jstring \<Rightarrow> (number \<Rightarrow> jstring) \<Rightarrow> jsval \<Rightarrow> js_error + jstring" where
  "toString_call callee nts v =
     (case v of
        JUndefined \<Rightarrow>
          Inl (TypeError (js ''Cannot read properties of undefined (reading '' @ quoted (js ''toString'') @ js '')''))
      | JNull \<Rightarrow>
          Inl (TypeError (js ''Cannot read properties of null (reading '' @ quoted (js ''toString'') @ js '')''))
      | JObj ps \<Rightarrow>
          if hasOwn ps (js ''toString'')
          then Inl (TypeError (callee @ js ''.toString is not a function''))
          else Inr (js ''[object Object]'')
      | _ \<Rightarrow> ToString nts v)"

fun truthy :: "jsval \<Rightarrow> bool" where
  "truthy JUndefined = False"
| "truthy JNull = False"
| "truthy (JBool b) = b"
| "truthy (JNum n) = (n \<noteq> NaN \<and> n \<noteq> Finite 0)"
| "truthy (JStr s) = (s \<noteq> [])"
| "truthy (JArr xs) = True"
| "truthy (JObj ps) = True"

text \<open>
  \<^verbatim>\<open>a === b\<close> where \<open>b\<close> is a primitive, as in every comparison of the
  handlers: an array or an object is equal to no primitive.
\<close>

fun strictEquals :: "jsval \<Rightarrow> jsval \<Rightarrow> bool" where
  "strictEquals JUndefined JUndefined = True"
| "strictEquals JNull JNull = True"
| "strictEquals (JBool a) (JBool b) = (a = b)"
| "strictEquals (JNum a) (JNum b) = (a = b \<and> a \<noteq> NaN)"
| "strictEquals (JStr a) (JStr b) = (a = b)"
| "strictEquals a b = False"

fun isArray :: "jsval \<Rightarrow> bool" where
  "isArray (JArr xs) = True"
| "isArray v = False"

fun isNumber :: "jsval \<Rightarrow> bool" where
  "isNumber (JNum n) = True"
| "isNumber v = False"

fun elements :: "jsval \<Rightarrow> jsval list" where
  "elements (JArr xs) = xs"
| "elements v = []"

text \<open>
  The property read \<^verbatim>\<open>row.k\<close> / \<^verbatim>\<open>row[k]\<close> for a column name \<open>k\<close>. No column
  name is a property of a prototype, so the read finds an own property of an object
  or nothing; on \<^verbatim>\<open>null\<close> it throws.
\<close>

definition getProp :: "jsval \<Rightarrow> jstring \<Rightarrow> js_error + jsval" where
  "getProp row k =
     (case row of
        JUndefined \<Rightarrow>
          Inl (TypeError (js ''Cannot read properties of undefined (reading '' @ quoted k @ js '')''))
      | JNull \<Rightarrow> Inl (TypeError (js ''Cannot read properties of null (reading '' @ quoted k @ js '')''))
      | JObj ps \<Rightarrow> Inr (case map_of ps k of None \<Rightarrow> JUndefined | Some v \<Rightarrow> v)
      | _ \<Rightarrow> Inr JUndefined)"

section \<open>Configuration and the identifier validator\<close>

text \<open>
  \<^verbatim>\<open>process.env\<close>: a variable is a string or absent. \<open>numberToString\<close> is the
  engine's conversion of a Number to a string.
\<close>

record config =
  API_KEY :: "jstring option"
  RRC_CLIENTS_TABLE :: "jstring option"
  numberToString :: "number \<Rightarrow> jstring"

definition envValue :: "jstring option \<Rightarrow> jsval" where
  "envValue x = (case x of None \<Rightarrow> JUndefined | Some s \<Rightarrow> JStr s)"

text \<open>\<^verbatim>\<open>const DEFAULT_TABLE = process.env.RRC_CLIENTS_TABLE || "rrc_clients"\<close>\<close>

definition DEFAULT_TABLE :: "config \<Rightarrow> jstring" where
  "DEFAULT_TABLE cfg =
     (case RRC_CLIENTS_TABLE cfg of
        None \<Rightarrow> js ''rrc_clients''
      | Some s \<Rightarrow> if s \<noteq> [] then s else js ''rrc_clients'')"

definition isIdentChar :: "16 word \<Rightarrow> bool" where
  "isIdentChar c \<longleftrightarrow>
     (0x61 \<le> c \<and> c \<le> 0x7A) \<or> (0x41 \<le> c \<and> c \<le> 0x5A) \<or> (0x30 \<le> c \<and> c \<le> 0x39) \<or> c = 0x5F"

text \<open>The regular expression \<^verbatim>\<open>/^[a-zA-Z0-9_]+$/\<close> on a string.\<close>

definition matchesIdentifier :: "jstring \<Rightarrow> bool" where
  "matchesIdentifier s \<longleftrightarrow> s \<noteq> [] \<and> list_all isIdentChar s"

text \<open>
  \<^verbatim>\<open>function isValidIdentifier(name) { return /^[a-zA-Z0-9_]+$/.test(name); }\<close>
  (\<^verbatim>\<open>test\<close> converts its argument to a string first).
\<close>

definition isValidIdentifier :: "(number \<Rightarrow> jstring) \<Rightarrow> jsval \<Rightarrow> js_error + bool" where
  "isValidIdentifier nts name =
     (case ToString nts name of
        Inl e \<Rightarrow> Inl e
      | Inr s \<Rightarrow> Inr (matchesIdentifier s))"

section \<open>The store behind the connection pool\<close>

text \<open>
  A bound parameter is the JavaScript value handed to \<^verbatim>\<open>client.query\<close>; a stored
  row is the list of the parameters bound for it. A table is the list of its rows in
  insertion order, under the name written in the statement.
\<close>

type_synonym tables = "jstring \<Rightarrow> jsval list list"

text \<open>
  The SQL the handlers send. An insert is
  \<^verbatim>\<open>INSERT INTO t (columns) VALUES ($p, ...), ...\<close> with the array of bound
  parameters: the table, the column names, the placeholder numbers of each tuple, and
  the parameters.
\<close>

datatype statement =
    BEGIN
  | COMMIT
  | ROLLBACK
  | DELETE_FROM jstring
  | TRUNCATE jstring
  | INSERT_INTO jstring "jstring list" "nat list list" "jsval list"

text \<open>
  The store as the one connection of a request sees it: the committed tables, and the
  tables of the open transaction if there is one.
\<close>

record store =
  committed :: tables
  pending :: "tables option"

definition working :: "store \<Rightarrow> tables" where
  "working s = (case pending s of None \<Rightarrow> committed s | Some p \<Rightarrow> p)"

definition writeTables :: "store \<Rightarrow> tables \<Rightarrow> store" where
  "writeTables s t = (case pending s of None \<Rightarrow> s\<lparr>committed := t\<rparr> | Some p \<Rightarrow> s\<lparr>pending := Some t\<rparr>)"

text \<open>The rows of an insert: placeholder \<open>$p\<close> stands for the \<open>p\<close>-th parameter.\<close>

definition bindRows :: "nat list list \<Rightarrow> jsval list \<Rightarrow> jsval list list option" where
  "bindRows placeholders params =
     (if list_all (list_all (\<lambda>p. 1 \<le> p \<and> p \<le> length params)) placeholders
      then Some (map (map (\<lambda>p. params ! (p - 1))) placeholders)
      else None)"

fun exec :: "statement \<Rightarrow> store \<Rightarrow> jstring + store" where
  "exec BEGIN s = Inr (case pending s of None \<Rightarrow> s\<lparr>pending := Some (committed s)\<rparr> | Some p \<Rightarrow> s)"
| "exec COMMIT s = Inr (case pending s of None \<Rightarrow> s | Some p \<Rightarrow> \<lparr>committed = p, pending = None\<rparr>)"
| "exec ROLLBACK s = Inr (s\<lparr>pending := None\<rparr>)"
| "exec (DELETE_FROM t) s = Inr (writeTables s ((working s)(t := [])))"
| "exec (TRUNCATE t) s = Inr (writeTables s ((working s)(t := [])))"
| "exec (INSERT_INTO t cols placeholders params) s =
     (case bindRows placeholders params of
        None \<Rightarrow> Inl (js ''there is no parameter for a placeholder'')
      | Some rows \<Rightarrow>
          if list_all (\<lambda>r. length r = length cols) rows
          then Inr (writeTables s ((working s)(t := working s t @ rows)))
          else Inl (js ''INSERT has a different number of expressions than target columns''))"

text \<open>
  What the code cannot know: whether the pool hands out a connection, and which
  statements the store rejects (a constraint, a missing table, a lost connection),
  with the error text.
\<close>

record backend =
  connectError :: "jstring option"
  rejects :: "store \<Rightarrow> statement \<Rightarrow> jstring option"

datatype body = Inserted nat | Failed jstring

datatype response = Response nat body

text \<open>What a request does, in order: the observable trace of the handler.\<close>

datatype event =
    Connect "jstring option"
  | Query statement "jstring option"
  | Reply response
  | Release

record state =
  db :: store
  trace :: "event list"

text \<open>\<^verbatim>\<open>await client.query(sql, params)\<close>: the rejection if there is one.\<close>

definition query :: "backend \<Rightarrow> statement \<Rightarrow> state \<Rightarrow> js_error option \<times> state" where
  "query be sql st =
     (case (case rejects be (db st) sql of Some m \<Rightarrow> Inl m | None \<Rightarrow> exec sql (db st)) of
        Inl m \<Rightarrow> (Some (QueryError m), st\<lparr>trace := trace st @ [Query sql (Some m)]\<rparr>)
      | Inr d \<Rightarrow> (None, \<lparr>db = d, trace = trace st @ [Query sql None]\<rparr>))"

section \<open>The four variants of the sync handler\<close>

text \<open>
  The repository holds four versions of \<^verbatim>\<open>server.js\<close>:
  \<^item> \<open>ServerJs\<close>: \<^verbatim>\<open>src/server.js\<close> (four columns, \<^verbatim>\<open>DELETE\<close>, trimmed strings);
  \<^item> \<open>Part000A\<close>: the first file of \<^verbatim>\<open>src/unnamed/part_000\<close> (twenty columns,
    \<^verbatim>\<open>DELETE\<close>, coercion by column);
  \<^item> \<open>Part000B\<close>: the second file of \<^verbatim>\<open>src/unnamed/part_000\<close> (four columns,
    \<^verbatim>\<open>TRUNCATE\<close> on request, values as they come);
  \<^item> \<open>Part001\<close>: \<^verbatim>\<open>src/unnamed/part_001\<close> (four columns, the fixed table
    \<^verbatim>\<open>rrc_clients\<close>, \<^verbatim>\<open>TRUNCATE\<close>, values as they come).
  They share the handler's skeleton and differ in the places that take the variant
  as an argument.
\<close>

datatype variant = ServerJs | Part000A | Part000B | Part001

text \<open>\<^verbatim>\<open>const { data, apiKey, tableName, truncateFirst = false } = req.body;\<close>\<close>

record request =
  data :: jsval
  apiKey :: jsval
  tableName :: jsval
  truncateFirst :: jsval

fun chunkSize :: "variant \<Rightarrow> nat" where
  "chunkSize ServerJs = 500"
| "chunkSize Part000A = 100"
| "chunkSize Part000B = 500"
| "chunkSize Part001 = 500"

definition narrowColumns :: "jstring list" where
  "narrowColumns = [js ''code'', js ''name'', js ''address'', js ''branch'']"

definition wideColumns :: "jstring list" where
  "wideColumns =
     [js ''code'', js ''name'', js ''address'', js ''branch'', js ''district'',
      js ''state'', js ''software'', js ''mobile'', js ''installationdate'',
      js ''priorty'', js ''directdealing'', js ''rout'', js ''amc'', js ''amcamt'',
      js ''accountcode'', js ''address3'', js ''lictype'', js ''clients'', js ''sp'',
      js ''nature'']"

fun columns :: "variant \<Rightarrow> jstring list" where
  "columns Part000A = wideColumns"
| "columns v = narrowColumns"

subsection \<open>The values bound for one record\<close>

text \<open>The first exception of a left-to-right evaluation, or all the results.\<close>

fun inOrder :: "(js_error + 'a) list \<Rightarrow> js_error + 'a list" where
  "inOrder [] = Inr []"
| "inOrder (x # xs) =
     (case x of
        Inl e \<Rightarrow> Inl e
      | Inr a \<Rightarrow> (case inOrder xs of Inl e \<Rightarrow> Inl e | Inr as \<Rightarrow> Inr (a # as)))"

text \<open>\<^verbatim>\<open>x || y\<close>\<close>

definition orElse :: "jsval \<Rightarrow> jsval \<Rightarrow> jsval" where
  "orElse x y = (if truthy x then x else y)"

text \<open>\<^verbatim>\<open>src/server.js\<close>: \<^verbatim>\<open>(row.code || "").toString().trim()\<close>\<close>

definition sanitize :: "(number \<Rightarrow> jstring) \<Rightarrow> jsval \<Rightarrow> jstring \<Rightarrow> js_error + jsval" where
  "sanitize nts row k =
     (case getProp row k of
        Inl e \<Rightarrow> Inl e
      | Inr v \<Rightarrow>
          (case toString_call (js ''(row.'' @ k @ js '' || '' @ [0x22, 0x22] @ js '')'') nts
                  (orElse v (JStr [])) of
             Inl e \<Rightarrow> Inl e
           | Inr s \<Rightarrow> Inr (JStr (trim s))))"

text \<open>
  The first file of \<^verbatim>\<open>part_000\<close>, the body of \<^verbatim>\<open>columns.forEach\<close> after the
  placeholder: \<open>raw\<close> is \<^verbatim>\<open>row[col]\<close>, the result is the value pushed.
\<close>

definition coerce :: "(number \<Rightarrow> jstring) \<Rightarrow> jstring \<Rightarrow> jsval \<Rightarrow> js_error + jsval" where
  "coerce nts col raw =
     (let v = (if strictEquals raw JUndefined then JNull else raw) in
      if \<not> strictEquals v JNull \<and> col = js ''installationdate'' then Inr v
      else if \<not> strictEquals v JNull \<and> col \<in> set [js ''amcamt''] then
        (if isNumber v then Inr v
         else if strictEquals v JNull \<or> strictEquals v (JStr []) then Inr JNull
         else (case ToString nts v of
                 Inl e \<Rightarrow> Inl e
               | Inr s \<Rightarrow> Inr (orElse (JNum (parseFloat s)) JNull)))
      else if \<not> strictEquals v JNull \<and> col \<in> set [js ''priorty'', js ''clients'', js ''sp''] then
        (if isNumber v then Inr v
         else if strictEquals v JNull \<or> strictEquals v (JStr []) then Inr JNull
         else (case ToString nts v of
                 Inl e \<Rightarrow> Inl e
               | Inr s \<Rightarrow> Inr (orElse (JNum (parseInt s)) JNull)))
      else if \<not> strictEquals v JNull then
        (case toString_call (js ''value'') nts v of
           Inl e \<Rightarrow> Inl e
         | Inr s \<Rightarrow> Inr (if trim s = [] then JNull else JStr (trim s)))
      else Inr v)"

text \<open>The values one record contributes to \<^verbatim>\<open>values\<close>, in column order.\<close>

fun pushed :: "variant \<Rightarrow> (number \<Rightarrow> jstring) \<Rightarrow> jsval \<Rightarrow> js_error + jsval list" where
  "pushed ServerJs nts row = inOrder (map (sanitize nts row) narrowColumns)"
| "pushed Part000A nts row =
     inOrder (map (\<lambda>col. case getProp row col of Inl e \<Rightarrow> Inl e | Inr raw \<Rightarrow> coerce nts col raw)
                wideColumns)"
| "pushed Part000B nts row = inOrder (map (getProp row) narrowColumns)"
| "pushed Part001 nts row = inOrder (map (getProp row) narrowColumns)"

subsection \<open>Building the insert of a chunk\<close>

text \<open>
  The narrow variants:
  \<^verbatim>\<open>chunk.forEach((row, idx) => { const base = idx * 4;
     valuePlaceholders.push(`($${base + 1}, $${base + 2}, $${base + 3}, $${base + 4})`);
     values.push(...); })\<close>.
  An exception leaves the loop with the arrays lost.
\<close>

fun forEachNarrow ::
  "variant \<Rightarrow> (number \<Rightarrow> jstring) \<Rightarrow> jsval list \<Rightarrow> nat \<Rightarrow> nat list list \<times> jsval list
     \<Rightarrow> js_error + nat list list \<times> jsval list" where
  "forEachNarrow v nts [] idx acc = Inr acc"
| "forEachNarrow v nts (row # rest) idx (valuePlaceholders, vals) =
     (let base = idx * 4 in
      case pushed v nts row of
        Inl e \<Rightarrow> Inl e
      | Inr vs \<Rightarrow>
          forEachNarrow v nts rest (idx + 1)
            (valuePlaceholders @ [[base + 1, base + 2, base + 3, base + 4]], vals @ vs))"

text \<open>
  The wide variant: \<^verbatim>\<open>columns.forEach\<close> inside \<^verbatim>\<open>chunk.forEach\<close>, with
  \<^verbatim>\<open>placeholderCounter\<close> running through the whole chunk.
\<close>

fun columnsForEach ::
  "(number \<Rightarrow> jstring) \<Rightarrow> jsval \<Rightarrow> jstring list \<Rightarrow> nat \<times> nat list \<times> jsval list
     \<Rightarrow> js_error + nat \<times> nat list \<times> jsval list" where
  "columnsForEach nts row [] acc = Inr acc"
| "columnsForEach nts row (col # rest) (placeholderCounter, rowPlaceholders, vals) =
     (case getProp row col of
        Inl e \<Rightarrow> Inl e
      | Inr raw \<Rightarrow>
          (case coerce nts col raw of
             Inl e \<Rightarrow> Inl e
           | Inr v \<Rightarrow>
               columnsForEach nts row rest
                 (placeholderCounter + 1, rowPlaceholders @ [placeholderCounter], vals @ [v])))"

fun forEachWide ::
  "(number \<Rightarrow> jstring) \<Rightarrow> jsval list \<Rightarrow> nat \<times> nat list list \<times> jsval list
     \<Rightarrow> js_error + nat \<times> nat list list \<times> jsval list" where
  "forEachWide nts [] acc = Inr acc"
| "forEachWide nts (row # rest) (placeholderCounter, valuePlaceholders, vals) =
     (case columnsForEach nts row wideColumns (placeholderCounter, [], vals) of
        Inl e \<Rightarrow> Inl e
      | Inr (counter', rowPlaceholders, vals') \<Rightarrow>
          forEachWide nts rest (counter', valuePlaceholders @ [rowPlaceholders], vals'))"

text \<open>The statement \<^verbatim>\<open>client.query(sql, values)\<close> sends for a chunk.\<close>

fun buildInsert ::
  "variant \<Rightarrow> (number \<Rightarrow> jstring) \<Rightarrow> jstring \<Rightarrow> jsval list \<Rightarrow> js_error + statement" where
  "buildInsert Part000A nts targetTable chunk =
     (case forEachWide nts chunk (1, [], []) of
        Inl e \<Rightarrow> Inl e
      | Inr (c, valuePlaceholders, vals) \<Rightarrow>
          Inr (INSERT_INTO targetTable wideColumns valuePlaceholders vals))"
| "buildInsert v nts targetTable chunk =
     (case forEachNarrow v nts chunk 0 ([], []) of
        Inl e \<Rightarrow> Inl e
      | Inr (valuePlaceholders, vals) \<Rightarrow>
          Inr (INSERT_INTO targetTable narrowColumns valuePlaceholders vals))"

subsection \<open>The transaction\<close>

text \<open>
  \<^verbatim>\<open>for (let i = 0; i < data.length; i += chunkSize) { const chunk = data.slice(i, i + chunkSize); ...;
     await client.query(sql, values); inserted += chunk.length; }\<close>
  The result is the exception that left the loop, or \<^verbatim>\<open>inserted\<close>.
\<close>

function insertLoop ::
  "variant \<Rightarrow> (number \<Rightarrow> jstring) \<Rightarrow> backend \<Rightarrow> jstring \<Rightarrow> jsval list \<Rightarrow> nat \<Rightarrow> nat \<Rightarrow> state
     \<Rightarrow> (js_error + nat) \<times> state" where
  "insertLoop v nts be targetTable records i inserted st =
     (if i < length records then
        (let chunk = take (chunkSize v) (drop i records) in
         case buildInsert v nts targetTable chunk of
           Inl e \<Rightarrow> (Inl e, st)
         | Inr sql \<Rightarrow>
             (case query be sql st of
                (Some e, st') \<Rightarrow> (Inl e, st')
              | (None, st') \<Rightarrow>
                  insertLoop v nts be targetTable records (i + chunkSize v)
                    (inserted + length chunk) st'))
      else (Inr inserted, st))"
  by pat_completeness auto
termination
  by (relation "measure (\<lambda>(v, nts, be, targetTable, records, i, inserted, st). length records - i)")
     (auto, case_tac v, auto)

declare insertLoop.simps [simp del]

text \<open>
  Step 4 of the handler, the clearing: \<^verbatim>\<open>DELETE FROM ${targetTable}\<close> in
  \<^verbatim>\<open>src/server.js\<close> and the first file of \<^verbatim>\<open>part_000\<close>;
  \<^verbatim>\<open>if (truncateFirst) TRUNCATE ${targetTable}\<close> in the second file of \<^verbatim>\<open>part_000\<close>,
  where a missing \<^verbatim>\<open>truncateFirst\<close> is \<^verbatim>\<open>false\<close>; \<^verbatim>\<open>TRUNCATE rrc_clients\<close> in
  \<^verbatim>\<open>part_001\<close>.
\<close>

fun clearStatements :: "variant \<Rightarrow> request \<Rightarrow> jstring \<Rightarrow> statement list" where
  "clearStatements ServerJs req targetTable = [DELETE_FROM targetTable]"
| "clearStatements Part000A req targetTable = [DELETE_FROM targetTable]"
| "clearStatements Part000B req targetTable =
     (if truthy (if strictEquals (truncateFirst req) JUndefined then JBool False
                 else truncateFirst req)
      then [TRUNCATE targetTable] else [])"
| "clearStatements Part001 req targetTable = [TRUNCATE (js ''rrc_clients'')]"

text \<open>Statements awaited one after the other; the first rejection ends them.\<close>

fun queries :: "backend \<Rightarrow> statement list \<Rightarrow> state \<Rightarrow> js_error option \<times> state" where
  "queries be [] st = (None, st)"
| "queries be (sql # rest) st =
     (case query be sql st of
        (Some e, st') \<Rightarrow> (Some e, st')
      | (None, st') \<Rightarrow> queries be rest st')"

text \<open>
  The \<^verbatim>\<open>try\<close> block: \<^verbatim>\<open>BEGIN\<close>, the clearing, the inserts, \<^verbatim>\<open>COMMIT\<close> and
  \<^verbatim>\<open>res.json({ success: true, insertedCount: inserted })\<close>. The result is the
  exception thrown in it, or \<^verbatim>\<open>inserted\<close>.
\<close>

definition tryBlock ::
  "variant \<Rightarrow> (number \<Rightarrow> jstring) \<Rightarrow> backend \<Rightarrow> request \<Rightarrow> jstring \<Rightarrow> state
     \<Rightarrow> (js_error + nat) \<times> state" where
  "tryBlock v nts be req targetTable st =
     (case query be BEGIN st of
        (Some e, st1) \<Rightarrow> (Inl e, st1)
      | (None, st1) \<Rightarrow>
          (case queries be (clearStatements v req targetTable) st1 of
             (Some e, st2) \<Rightarrow> (Inl e, st2)
           | (None, st2) \<Rightarrow>
               (case insertLoop v nts be targetTable (elements (data req)) 0 0 st2 of
                  (Inl e, st3) \<Rightarrow> (Inl e, st3)
                | (Inr inserted, st3) \<Rightarrow>
                    (case query be COMMIT st3 of
                       (Some e, st4) \<Rightarrow> (Inl e, st4)
                     | (None, st4) \<Rightarrow>
                         (Inr inserted,
                          st4\<lparr>trace := trace st4 @ [Reply (Response 200 (Inserted inserted))]\<rparr>)))))"

subsection \<open>The handler of \<^verbatim>\<open>POST /api/sync\<close>\<close>

text \<open>
  Step 3: \<^verbatim>\<open>tableName && isValidIdentifier(tableName) ? tableName : DEFAULT_TABLE\<close>;
  \<^verbatim>\<open>part_001\<close> writes \<^verbatim>\<open>rrc_clients\<close> into its statements.
\<close>

fun targetTable :: "variant \<Rightarrow> config \<Rightarrow> request \<Rightarrow> js_error + jsval" where
  "targetTable Part001 cfg req = Inr (JStr (js ''rrc_clients''))"
| "targetTable v cfg req =
     (if truthy (tableName req) then
        (case isValidIdentifier (numberToString cfg) (tableName req) of
           Inl e \<Rightarrow> Inl e
         | Inr valid \<Rightarrow> Inr (if valid then tableName req else JStr (DEFAULT_TABLE cfg)))
      else Inr (JStr (DEFAULT_TABLE cfg)))"

text \<open>
  What the handler leaves behind: the store, the trace, and the exception that left
  the handler uncaught. The handler is an \<^verbatim>\<open>async\<close> function: its promise is then
  rejected and the handler itself sends nothing more. What becomes of the rejection is
  the framework's business and depends on its version (Express 4 leaves the request
  unanswered; Express 5 hands the error to the error middleware, which answers 500
  with a message of its own).
\<close>

record outcome =
  finalStore :: store
  events :: "event list"
  uncaught :: "js_error option"

definition invalidApiKey :: response where
  "invalidApiKey = Response 401 (Failed (js ''Invalid API key''))"

definition invalidDataFormat :: response where
  "invalidDataFormat = Response 400 (Failed (js ''Invalid data format''))"

definition syncHandler :: "variant \<Rightarrow> config \<Rightarrow> backend \<Rightarrow> request \<Rightarrow> store \<Rightarrow> outcome" where
  "syncHandler v cfg be req s =
     (if \<not> strictEquals (apiKey req) (envValue (API_KEY cfg)) then
        \<lparr>finalStore = s, events = [Reply invalidApiKey], uncaught = None\<rparr>
      else if \<not> isArray (data req) then
        \<lparr>finalStore = s, events = [Reply invalidDataFormat], uncaught = None\<rparr>
      else
        (case (case targetTable v cfg req of
                 Inl e \<Rightarrow> Inl e
               | Inr t \<Rightarrow> ToString (numberToString cfg) t) of
           Inl e \<Rightarrow> \<lparr>finalStore = s, events = [], uncaught = Some e\<rparr>
         | Inr table \<Rightarrow>
             (case connectError be of
                Some m \<Rightarrow>
                  \<lparr>finalStore = s, events = [Connect (Some m)], uncaught = Some (QueryError m)\<rparr>
              | None \<Rightarrow>
                  (case tryBlock v (numberToString cfg) be req table
                          \<lparr>db = s, trace = [Connect None]\<rparr> of
                     (Inr inserted, st) \<Rightarrow>
                       \<lparr>finalStore = db st, events = trace st @ [Release], uncaught = None\<rparr>
                   | (Inl err, st) \<Rightarrow>
                       (case query be ROLLBACK st of
                          (Some e, st') \<Rightarrow>
                            \<lparr>finalStore = db st', events = trace st' @ [Release],
                             uncaught = Some e\<rparr>
                        | (None, st') \<Rightarrow>
                            \<lparr>finalStore = db st',
                             events = trace st'
                               @ [Reply (Response 500 (Failed (message err))), Release],
                             uncaught = None\<rparr>)))))"

section \<open>Notions the properties are stated with\<close>

text \<open>
  The characters an identifier may consist of, spelled out: the ASCII letters, the
  digits and the underscore.
\<close>

definition identifierAlphabet :: jstring where
  "identifierAlphabet = js ''abcdefghijklmnopqrstuvwxyzABCDEFGHIJKLMNOPQRSTUVWXYZ0123456789_''"

text \<open>
  The values the specification calls scalars (with \<^verbatim>\<open>undefined\<close> for a missing
  field), and the falsy numbers.
\<close>

fun scalar :: "jsval \<Rightarrow> bool" where
  "scalar (JArr xs) = False"
| "scalar (JObj ps) = False"
| "scalar v = True"

definition falsyNumber :: "number \<Rightarrow> bool" where
  "falsyNumber n \<longleftrightarrow> n = NaN \<or> n = Finite 0"

text \<open>
  The coercion classes of the wide schema, by column: the date, the float and the
  integer columns; every other column is a trimmed string.
\<close>

definition dateColumns :: "jstring list" where
  "dateColumns = [js ''installationdate'']"

definition floatColumns :: "jstring list" where
  "floatColumns = [js ''amcamt'']"

definition integerColumns :: "jstring list" where
  "integerColumns = [js ''priorty'', js ''clients'', js ''sp'']"

definition stringColumn :: "jstring \<Rightarrow> bool" where
  "stringColumn col \<longleftrightarrow> col \<notin> set (dateColumns @ floatColumns @ integerColumns)"

text \<open>The responses a trace sends, and the inserts it issues, in order.\<close>

fun replies :: "event list \<Rightarrow> response list" where
  "replies [] = []"
| "replies (Reply r # es) = r # replies es"
| "replies (e # es) = replies es"

fun insertsOf :: "event list \<Rightarrow> statement list" where
  "insertsOf [] = []"
| "insertsOf (Query (INSERT_INTO t cols ps params) r # es) =
     INSERT_INTO t cols ps params # insertsOf es"
| "insertsOf (e # es) = insertsOf es"

text \<open>A statement that was sent and not rejected.\<close>

fun accepted :: "event \<Rightarrow> bool" where
  "accepted (Query sql None) = True"
| "accepted e = False"

text \<open>The statements of the clearing and of the insertion.\<close>

fun clearOrInsert :: "statement \<Rightarrow> bool" where
  "clearOrInsert (DELETE_FROM t) = True"
| "clearOrInsert (TRUNCATE t) = True"
| "clearOrInsert (INSERT_INTO t cols ps params) = True"
| "clearOrInsert sql = False"

text \<open>The rows, the placeholders and the parameters of an insert.\<close>

fun placeholdersOf :: "statement \<Rightarrow> nat list list" where
  "placeholdersOf (INSERT_INTO t cols ps params) = ps"
| "placeholdersOf sql = []"

fun rowCount :: "statement \<Rightarrow> nat" where
  "rowCount (INSERT_INTO t cols ps params) = length ps"
| "rowCount sql = 0"

fun paramCount :: "statement \<Rightarrow> nat" where
  "paramCount (INSERT_INTO t cols ps params) = length params"
| "paramCount sql = 0"

text \<open>
  A record as the specification has it: an object whose fields are scalars. And the
  elements that are neither objects nor \<^verbatim>\<open>null\<close>: numbers, strings and booleans.
\<close>

fun recordObject :: "jsval \<Rightarrow> bool" where
  "recordObject (JObj ps) = list_all (\<lambda>p. scalar (snd p)) ps"
| "recordObject v = False"

fun primitiveElement :: "jsval \<Rightarrow> bool" where
  "primitiveElement (JNum n) = True"
| "primitiveElement (JStr s) = True"
| "primitiveElement (JBool b) = True"
| "primitiveElement v = False"

text \<open>
  What an exception of the \<^verbatim>\<open>try\<close> block leaves at the end of the trace: nothing
  when it was thrown by the handler's own code, the rejected statement when it is the
  rejection of a query.
\<close>

definition failureTail :: "js_error \<Rightarrow> event list \<Rightarrow> bool" where
  "failureTail e evs \<longleftrightarrow> evs = [] \<or> (\<exists>sql m. e = QueryError m \<and> evs = [Query sql (Some m)])"

text \<open>Appending rows to a table of the store, as an accepted insert does.\<close>

definition appendRows :: "jstring \<Rightarrow> jsval list list \<Rightarrow> store \<Rightarrow> store" where
  "appendRows t rows s = writeTables s ((working s)(t := working s t @ rows))"

text \<open>Whether the variant clears the table for this request.\<close>

definition clears :: "variant \<Rightarrow> request \<Rightarrow> bool" where
  "clears v req \<longleftrightarrow> v \<noteq> Part000B \<or> truthy (truncateFirst req)"

text \<open>
  The chunks of the insert loop: \<^verbatim>\<open>records.slice(i, i + c)\<close> for
  \<open>i = i0, i0 + c, ...\<close> below the length.
\<close>

function chunksFrom :: "nat \<Rightarrow> nat \<Rightarrow> 'a list \<Rightarrow> 'a list list" where
  "chunksFrom c i xs =
     (if i < length xs \<and> 0 < c then take c (drop i xs) # chunksFrom c (i + c) xs else [])"
  by pat_completeness auto
termination
  by (relation "measure (\<lambda>(c, i, xs). length xs - i)") auto

declare chunksFrom.simps [simp del]

text \<open>
  The placeholders of an insert of \<open>n\<close> rows with \<open>k\<close> columns, numbered row by
  row: column \<open>j\<close> of row \<open>i\<close> (both from 0) is \<open>$(i * k + j + 1)\<close>.
\<close>

definition numbering :: "nat \<Rightarrow> nat \<Rightarrow> nat list list" where
  "numbering k n = map (\<lambda>i. map (\<lambda>j. i * k + j + 1) [0..<k]) [0..<n]"

text \<open>
  The lengths of the chunks of \<open>n\<close> records with chunk size \<open>c\<close>: full chunks, then
  the rest if there is one.
\<close>

definition chunkLengths :: "nat \<Rightarrow> nat \<Rightarrow> nat list" where
  "chunkLengths c n = replicate (n div c) c @ (if n mod c = 0 then [] else [n mod c])"

section \<open>Sample requests\<close>

text \<open>Concrete inputs on which the handlers are run.\<close>

function decimal :: "int \<Rightarrow> jstring" where
  "decimal n = (if n < 10 then [word_of_int (48 + n)]
                else decimal (n div 10) @ [word_of_int (48 + n mod 10)])"
  by pat_completeness auto
termination
  by (relation "measure nat") auto

declare decimal.simps [simp del]

text \<open>
  \<^verbatim>\<open>Number::toString\<close> of the engine, radix 10. For a positive \<open>x\<close> it takes the
  integers \<open>n\<close>, \<open>k\<close>, \<open>s\<close> with \<open>10^(k-1) \<le> s < 10^k\<close> such that \<open>s * 10^(n-k)\<close>
  rounds to \<open>x\<close> and \<open>k\<close> is as small as possible (of several \<open>s\<close> the one closest to
  \<open>x\<close>, and the even one of two), and writes the digits of \<open>s\<close> in positional
  notation for \<open>-6 < n \<le> 21\<close> and with an exponent otherwise.

  \<open>floor_log10 a\<close> is the \<open>e\<close> with \<open>10^e \<le> a < 10^(e+1)\<close>, for \<open>a > 0\<close>.
\<close>

definition floor_log10 :: "rat \<Rightarrow> int" where
  "floor_log10 a =
     (let (n, d) = quotient_of a;
          k = int (length (decimal n)) - int (length (decimal d))
      in if pow10 k \<le> a then k else k - 1)"

text \<open>The pairs \<open>(n, s)\<close> with \<open>k\<close> digits that round to \<open>x\<close>, where \<open>e = floor_log10 x\<close>.\<close>

definition roundTrips :: "rat \<Rightarrow> int \<Rightarrow> nat \<Rightarrow> (int \<times> int) list" where
  "roundTrips x e k =
     [(n, s).
        n \<leftarrow> [e + 1, e + 2],
        s \<leftarrow> [\<lfloor>x / pow10 (n - int k)\<rfloor>, \<lfloor>x / pow10 (n - int k)\<rfloor> + 1],
        10 ^ (k - 1) \<le> s \<and> s < 10 ^ k \<and> round64 (of_int s * pow10 (n - int k)) = Finite x]"

definition closer :: "rat \<Rightarrow> nat \<Rightarrow> int \<times> int \<Rightarrow> int \<times> int \<Rightarrow> int \<times> int" where
  "closer x k a b =
     (let da = \<bar>of_int (snd a) * pow10 (fst a - int k) - x\<bar>;
          db = \<bar>of_int (snd b) * pow10 (fst b - int k) - x\<bar>
      in if db < da \<or> (db = da \<and> even (snd b) \<and> odd (snd a)) then b else a)"

fun shortest :: "rat \<Rightarrow> int \<Rightarrow> nat list \<Rightarrow> (nat \<times> int \<times> int) option" where
  "shortest x e [] = None"
| "shortest x e (k # ks) =
     (case roundTrips x e k of
        [] \<Rightarrow> shortest x e ks
      | c # cs \<Rightarrow> Some (k, foldl (closer x k) c cs))"

definition digitZero :: "16 word" where
  "digitZero = 0x30"

definition positional :: "int \<Rightarrow> jstring \<Rightarrow> jstring" where
  "positional n ds =
     (let k = int (length ds) in
      if k \<le> n \<and> n \<le> 21 then ds @ replicate (nat (n - k)) digitZero
      else if 0 < n \<and> n \<le> 21 then take (nat n) ds @ js ''.'' @ drop (nat n) ds
      else if - 6 < n \<and> n \<le> 0 then js ''0.'' @ replicate (nat (- n)) digitZero @ ds
      else
        (if k = 1 then ds else take 1 ds @ js ''.'' @ drop 1 ds)
          @ js ''e'' @ (if n - 1 < 0 then js ''-'' else js ''+'') @ decimal \<bar>n - 1\<bar>)"

text \<open>
  A rational that is no binary64 value (none comes out of JSON or of the parsers) has
  no digits that round to it; it is written with the 17 digits below it.
\<close>

definition positiveToString :: "rat \<Rightarrow> jstring" where
  "positiveToString x =
     (let e = floor_log10 x in
      case shortest x e [1..<18] of
        Some (k, n, s) \<Rightarrow> positional n (decimal s)
      | None \<Rightarrow> positional (e + 1) (decimal \<lfloor>x / pow10 (e - 16)\<rfloor>))"

definition sampleNumberToString :: "number \<Rightarrow> jstring" where
  "sampleNumberToString n =
     (case n of
        NaN \<Rightarrow> js ''NaN''
      | Infinity neg \<Rightarrow> (if neg then js ''-Infinity'' else js ''Infinity'')
      | Finite q \<Rightarrow>
          if q = 0 then js ''0''
          else if q < 0 then js ''-'' @ positiveToString (- q)
          else positiveToString q)"

definition sampleConfig :: config where
  "sampleConfig =
     \<lparr>API_KEY = Some (js ''s3cret''), RRC_CLIENTS_TABLE = None,
      numberToString = sampleNumberToString\<rparr>"

definition noSecretConfig :: config where
  "noSecretConfig = sampleConfig\<lparr>API_KEY := None\<rparr>"

definition acceptNothing :: "store \<Rightarrow> statement \<Rightarrow> jstring option" where
  "acceptNothing s sql = None"

definition acceptAll :: backend where
  "acceptAll = \<lparr>connectError = None, rejects = acceptNothing\<rparr>"

definition sampleStore :: store where
  "sampleStore = \<lparr>committed = (\<lambda>t. []), pending = None\<rparr>"

definition acme :: jsval where
  "acme =
     JObj [(js ''code'', JStr (js ''1'')), (js ''name'', JStr (js ''  Acme  '')),
           (js ''address'', JStr (js ''X'')), (js ''branch'', JStr (js ''B''))]"

definition sampleRequest :: request where
  "sampleRequest =
     \<lparr>data = JArr [acme], apiKey = JStr (js ''s3cret''), tableName = JUndefined,
      truncateFirst = JUndefined\<rparr>"

definition toStringObject :: jsval where
  "toStringObject = JObj [(js ''toString'', JNum (Finite 1))]"

text \<open>
  A store that rejects every insert (a value of the wrong type, say), and a connection
  that is lost during the inserts, so that the \<^verbatim>\<open>ROLLBACK\<close> is rejected as well.
\<close>

fun rejectInsert :: "store \<Rightarrow> statement \<Rightarrow> jstring option" where
  "rejectInsert s (INSERT_INTO t cols ps params) =
     Some (js ''invalid input syntax for type integer'')"
| "rejectInsert s sql = None"

fun connectionLost :: "store \<Rightarrow> statement \<Rightarrow> jstring option" where
  "connectionLost s (INSERT_INTO t cols ps params) =
     Some (js ''Connection terminated unexpectedly'')"
| "connectionLost s ROLLBACK = Some (js ''Client has encountered a connection error and is not queryable'')"
| "connectionLost s sql = None"

definition typeConstraint :: backend where
  "typeConstraint = \<lparr>connectError = None, rejects = rejectInsert\<rparr>"

definition lostConnection :: backend where
  "lostConnection = \<lparr>connectError = None, rejects = connectionLost\<rparr>"

text \<open>A store with a row from an earlier sync, and the insert of the sample request.\<close>

definition oldStore :: store where
  "oldStore =
     \<lparr>committed = (\<lambda>t. if t = js ''rrc_clients''
                          then [[JStr (js ''0''), JStr (js ''Old''), JStr (js ''Y''), JStr (js ''Z'')]]
                          else []),
      pending = None\<rparr>"

definition sampleInsert :: statement where
  "sampleInsert =
     INSERT_INTO (js ''rrc_clients'') narrowColumns [[1, 2, 3, 4]]
       [JStr (js ''1''), JStr (js ''Acme''), JStr (js ''X''), JStr (js ''B'')]"

text \<open>
  The message of the TypeError that reading \<^verbatim>\<open>code\<close> of \<^verbatim>\<open>null\<close> throws, the row the
  variants without coercion store for the sample record, and requests whose array holds
  a number or \<^verbatim>\<open>null\<close> in place of a record.
\<close>

definition nullMessage :: jstring where
  "nullMessage = js ''Cannot read properties of null (reading '' @ quoted (js ''code'') @ js '')''"

definition acmeRaw :: "jsval list" where
  "acmeRaw = [JStr (js ''1''), JStr (js ''  Acme  ''), JStr (js ''X''), JStr (js ''B'')]"

definition acmeTrimmed :: "jsval list" where
  "acmeTrimmed = [JStr (js ''1''), JStr (js ''Acme''), JStr (js ''X''), JStr (js ''B'')]"

definition numberElementRequest :: request where
  "numberElementRequest = sampleRequest\<lparr>data := JArr [JNum (Finite 5)]\<rparr>"

definition nullElementRequest :: request where
  "nullElementRequest = sampleRequest\<lparr>data := JArr [acme, JNull]\<rparr>"

text \<open>Snapshots of several chunks: the sample record 1234 times, and 250 times.\<close>

definition manyRecords :: request where
  "manyRecords = sampleRequest\<lparr>data := JArr (replicate 1234 acme)\<rparr>"

definition wideRecords :: request where
  "wideRecords = sampleRequest\<lparr>data := JArr (replicate 250 acme)\<rparr>"

text \<open>A request whose array holds a string, a boolean and a number in place of records.\<close>

definition primitivesRequest :: request where
  "primitivesRequest =
     sampleRequest\<lparr>data := JArr [JStr (js ''abc''), JBool True, JNum (Finite 5)]\<rparr>"

section \<open>The Auth Gate and the payload check\<close>

text \<open>
  C3. A request whose \<^verbatim>\<open>apiKey\<close> is not strictly equal to the configured secret is
  answered with 401 and the message \<^verbatim>\<open>Invalid API key\<close>, and that is all the handler
  does: the store is as it was, no connection is taken and no statement is sent,
  whatever the other fields of the body are (the payload is not looked at). With a
  secret configured, a request without \<^verbatim>\<open>apiKey\<close> is such a request.
\<close>

theorem unauthorized_request_rejected:
  "(\<not> strictEquals (apiKey req) (envValue (API_KEY cfg)) \<longrightarrow>
      syncHandler v cfg be req s =
        \<lparr>finalStore = s,
         events = [Reply (Response 401 (Failed (js ''Invalid API key'')))],
         uncaught = None\<rparr>)
   \<and> (API_KEY cfg = Some k \<and> apiKey req = JUndefined \<longrightarrow>
        \<not> strictEquals (apiKey req) (envValue (API_KEY cfg)))"
  by (simp add: syncHandler_def invalidApiKey_def envValue_def)

theorem unauthorized_request_rejected_witness:
  "\<not> strictEquals (apiKey (sampleRequest\<lparr>apiKey := JUndefined, data := JNum (Finite 5)\<rparr>))
        (envValue (API_KEY sampleConfig))
   \<and> syncHandler Part000A sampleConfig acceptAll
        (sampleRequest\<lparr>apiKey := JUndefined, data := JNum (Finite 5)\<rparr>) sampleStore =
        \<lparr>finalStore = sampleStore,
         events = [Reply (Response 401 (Failed (js ''Invalid API key'')))],
         uncaught = None\<rparr>"
  using unauthorized_request_rejected
          [of "sampleRequest\<lparr>apiKey := JUndefined, data := JNum (Finite 5)\<rparr>" sampleConfig
              Part000A acceptAll sampleStore "js ''s3cret''"]
  by (simp add: sampleConfig_def sampleRequest_def envValue_def)

text \<open>
  C8. An authorized request whose \<^verbatim>\<open>data\<close> is not an array (an object, a string, a
  number, a boolean, \<^verbatim>\<open>null\<close> or absent) is answered with 400 and the message
  \<^verbatim>\<open>Invalid data format\<close>, and that is all the handler does: no connection is
  taken, no statement is sent, the store is as it was.
\<close>

theorem non_array_payload_rejected:
  "(strictEquals (apiKey req) (envValue (API_KEY cfg)) \<and> \<not> isArray (data req) \<longrightarrow>
      syncHandler v cfg be req s =
        \<lparr>finalStore = s,
         events = [Reply (Response 400 (Failed (js ''Invalid data format'')))],
         uncaught = None\<rparr>)
   \<and> \<not> isArray (JObj ps) \<and> \<not> isArray (JStr t) \<and> \<not> isArray (JNum n) \<and> \<not> isArray (JBool b)
   \<and> \<not> isArray JNull \<and> \<not> isArray JUndefined"
  by (simp add: syncHandler_def invalidDataFormat_def)

theorem non_array_payload_rejected_witness:
  "strictEquals (apiKey (sampleRequest\<lparr>data := JObj [(js ''0'', acme)]\<rparr>))
      (envValue (API_KEY sampleConfig))
   \<and> \<not> isArray (data (sampleRequest\<lparr>data := JObj [(js ''0'', acme)]\<rparr>))
   \<and> syncHandler ServerJs sampleConfig acceptAll
        (sampleRequest\<lparr>data := JObj [(js ''0'', acme)]\<rparr>) sampleStore =
        \<lparr>finalStore = sampleStore,
         events = [Reply (Response 400 (Failed (js ''Invalid data format'')))],
         uncaught = None\<rparr>"
  using non_array_payload_rejected
          [of "sampleRequest\<lparr>data := JObj [(js ''0'', acme)]\<rparr>" sampleConfig ServerJs
              acceptAll sampleStore]
  by (simp add: sampleConfig_def sampleRequest_def envValue_def)

section \<open>The identifier validator\<close>

lemma word_in_range:
  fixes c :: "16 word"
  assumes "lo \<le> unat c" "unat c \<le> hi"
  shows "c \<in> of_nat ` set [lo..<Suc hi]"
proof -
  have "unat c \<in> set [lo..<Suc hi]" using assms by auto
  then have "of_nat (unat c) \<in> (of_nat ` set [lo..<Suc hi] :: 16 word set)" by (rule imageI)
  then show ?thesis by simp
qed

lemma isIdentChar_alphabet: "isIdentChar c \<longleftrightarrow> c \<in> set identifierAlphabet"
proof
  assume "c \<in> set identifierAlphabet"
  then show "isIdentChar c"
    by (auto simp: identifierAlphabet_def js_def isIdentChar_def)
next
  assume h: "isIdentChar c"
  have r1: "c \<in> set identifierAlphabet" if "0x61 \<le> c" "c \<le> 0x7A"
    using word_in_range[of 97 c 122] that
    by (auto simp add: word_le_nat_alt upt_rec identifierAlphabet_def js_def)
  have r2: "c \<in> set identifierAlphabet" if "0x41 \<le> c" "c \<le> 0x5A"
    using word_in_range[of 65 c 90] that
    by (auto simp add: word_le_nat_alt upt_rec identifierAlphabet_def js_def)
  have r3: "c \<in> set identifierAlphabet" if "0x30 \<le> c" "c \<le> 0x39"
    using word_in_range[of 48 c 57] that
    by (auto simp add: word_le_nat_alt upt_rec identifierAlphabet_def js_def)
  have r4: "c \<in> set identifierAlphabet" if "c = 0x5F"
    using that by (simp add: identifierAlphabet_def js_def)
  from h r1 r2 r3 r4 show "c \<in> set identifierAlphabet"
    unfolding isIdentChar_def by blast
qed

lemma matchesIdentifier_alphabet:
  "matchesIdentifier s \<longleftrightarrow> s \<noteq> [] \<and> set s \<subseteq> set identifierAlphabet"
  by (auto simp: matchesIdentifier_def list_all_iff isIdentChar_alphabet)

text \<open>
  C4. In the variants that take a table name from the request, a candidate name (a
  string) is the target table exactly when it is one or more ASCII letters, digits or
  underscores and nothing else; any other name, and an absent one, gives the configured
  default table. \<^verbatim>\<open>clients_2024\<close> is taken, \<^verbatim>\<open>clients; DROP TABLE x\<close> is not.
  (A value that is not a string is tested through its string form, and a falsy value
  gives the default.)
\<close>

theorem identifier_validator_selects_table:
  "v \<noteq> Part001 \<longrightarrow>
     isValidIdentifier (numberToString cfg) (JStr name)
       = Inr (name \<noteq> [] \<and> set name \<subseteq> set identifierAlphabet)
     \<and> targetTable v cfg (req\<lparr>tableName := JStr name\<rparr>)
       = Inr (JStr (if name \<noteq> [] \<and> set name \<subseteq> set identifierAlphabet then name
                    else DEFAULT_TABLE cfg))
     \<and> targetTable v cfg (req\<lparr>tableName := JUndefined\<rparr>) = Inr (JStr (DEFAULT_TABLE cfg))
     \<and> targetTable v cfg req =
         (if truthy (tableName req) then
            (case ToString (numberToString cfg) (tableName req) of
               Inl e \<Rightarrow> Inl e
             | Inr str \<Rightarrow>
                 Inr (if str \<noteq> [] \<and> set str \<subseteq> set identifierAlphabet then tableName req
                      else JStr (DEFAULT_TABLE cfg)))
          else Inr (JStr (DEFAULT_TABLE cfg)))"
  by (cases v) (auto simp: isValidIdentifier_def matchesIdentifier_alphabet split: sum.splits)

theorem identifier_validator_selects_table_witness:
  "targetTable ServerJs sampleConfig (sampleRequest\<lparr>tableName := JStr (js ''clients_2024'')\<rparr>)
     = Inr (JStr (js ''clients_2024''))
   \<and> targetTable ServerJs sampleConfig
        (sampleRequest\<lparr>tableName := JStr (js ''clients; DROP TABLE x'')\<rparr>)
     = Inr (JStr (js ''rrc_clients''))"
  using identifier_validator_selects_table
          [of ServerJs sampleConfig "js ''clients_2024''" sampleRequest]
        identifier_validator_selects_table
          [of ServerJs sampleConfig "js ''clients; DROP TABLE x''" sampleRequest]
  by (simp add: identifierAlphabet_def js_def DEFAULT_TABLE_def sampleConfig_def)

section \<open>The Record Coercer\<close>

text \<open>The engine's conversion of a Number to a string, on two sample values.\<close>

lemma sampleNumberToString_examples:
  "sampleNumberToString (Finite (3 / 2)) = js ''1.5''
   \<and> sampleNumberToString (Finite (10 ^ 21)) = js ''1e+21''"
  by code_simp

lemma ToString_scalar:
  "scalar raw \<Longrightarrow> \<exists>str. ToString nts raw = Inr str"
  by (cases raw) auto

lemma toString_call_scalar:
  "scalar raw \<Longrightarrow> raw \<noteq> JUndefined \<Longrightarrow> raw \<noteq> JNull \<Longrightarrow>
     toString_call callee nts raw = ToString nts raw"
  by (cases raw) (auto simp: toString_call_def)

lemma stringColumn_simps:
  "stringColumn col \<Longrightarrow> col \<noteq> js ''installationdate'' \<and> col \<noteq> js ''amcamt''
     \<and> col \<noteq> js ''priorty'' \<and> col \<noteq> js ''clients'' \<and> col \<noteq> js ''sp''"
  by (auto simp: stringColumn_def dateColumns_def floatColumns_def integerColumns_def)

text \<open>
  C5 (as amended). In the wide schema (first file of \<^verbatim>\<open>part_000\<close>) a string
  column that is missing or \<^verbatim>\<open>null\<close> is stored as \<^verbatim>\<open>null\<close>; any other scalar is
  converted to a string and trimmed, and an empty result is stored as \<^verbatim>\<open>null\<close>. In
  \<^verbatim>\<open>src/server.js\<close> a field whose value is falsy (missing, \<^verbatim>\<open>null\<close>, \<^verbatim>\<open>false\<close>,
  0, the empty string) is stored as the empty string, and any other scalar is converted
  to a string and trimmed, an empty result staying the empty string. Both store
  \<^verbatim>\<open>Acme\<close> for the input \<^verbatim>\<open>"  Acme  "\<close>.
\<close>

theorem string_field_coercion:
  "(stringColumn col \<longrightarrow>
      (raw = JUndefined \<or> raw = JNull \<longrightarrow> coerce nts col raw = Inr JNull)
    \<and> (scalar raw \<and> raw \<noteq> JUndefined \<and> raw \<noteq> JNull \<longrightarrow>
         (\<exists>str. ToString nts raw = Inr str
            \<and> coerce nts col raw = Inr (if trim str = [] then JNull else JStr (trim str)))))
   \<and> (getProp row k = Inr raw \<longrightarrow>
        (\<not> truthy raw \<longrightarrow> sanitize nts row k = Inr (JStr []))
      \<and> (scalar raw \<and> truthy raw \<longrightarrow>
           (\<exists>str. ToString nts raw = Inr str \<and> sanitize nts row k = Inr (JStr (trim str)))))"
proof -
  have wide_missing: "coerce nts col raw = Inr JNull"
    if a: "stringColumn col" and b: "raw = JUndefined \<or> raw = JNull"
    using a b stringColumn_simps[of col] by (auto simp: coerce_def)
  have wide_scalar:
    "\<exists>str. ToString nts raw = Inr str
       \<and> coerce nts col raw = Inr (if trim str = [] then JNull else JStr (trim str))"
    if a: "stringColumn col" and b: "scalar raw" and c: "raw \<noteq> JUndefined" and d: "raw \<noteq> JNull"
  proof -
    obtain str where str: "ToString nts raw = Inr str"
      using ToString_scalar[OF b] by blast
    have "strictEquals raw JUndefined = False" "strictEquals raw JNull = False"
      using c d by (cases raw; simp)+
    then show ?thesis
      using a b c d stringColumn_simps[of col] str toString_call_scalar[of raw "js ''value''" nts]
      by (simp add: coerce_def)
  qed
  have narrow_falsy: "sanitize nts row k = Inr (JStr [])"
    if a: "getProp row k = Inr raw" and b: "\<not> truthy raw"
    using a b by (simp add: sanitize_def orElse_def toString_call_def trim_def)
  have narrow_scalar:
    "\<exists>str. ToString nts raw = Inr str \<and> sanitize nts row k = Inr (JStr (trim str))"
    if a: "getProp row k = Inr raw" and b: "scalar raw" and c: "truthy raw"
  proof -
    obtain str where str: "ToString nts raw = Inr str"
      using ToString_scalar[OF b] by blast
    have "raw \<noteq> JUndefined" "raw \<noteq> JNull" using c by auto
    then show ?thesis
      using a b c str toString_call_scalar[of raw _ nts]
      by (simp add: sanitize_def orElse_def)
  qed
  show ?thesis
    using wide_missing wide_scalar narrow_falsy narrow_scalar by blast
qed

theorem string_field_coercion_witness:
  "coerce sampleNumberToString (js ''name'') (JStr (js ''  Acme  '')) = Inr (JStr (js ''Acme''))
   \<and> sanitize sampleNumberToString acme (js ''name'') = Inr (JStr (js ''Acme''))"
proof -
  have h1: "stringColumn (js ''name'')" by code_simp
  have h2: "getProp acme (js ''name'') = Inr (JStr (js ''  Acme  ''))" by code_simp
  have h3: "trim (js ''  Acme  '') = js ''Acme''" by code_simp
  have h4: "js ''Acme'' \<noteq> []" by code_simp
  have h5: "js ''  Acme  '' \<noteq> []" by code_simp
  from string_field_coercion
         [of "js ''name''" "JStr (js ''  Acme  '')" sampleNumberToString acme "js ''name''"]
       h1 h2 h3 h4 h5
  show ?thesis by simp
qed

text \<open>
  The claim as it is written fails in \<^verbatim>\<open>src/server.js\<close>: a record without
  \<^verbatim>\<open>name\<close> gets the empty string, not \<^verbatim>\<open>null\<close>.
\<close>

theorem string_field_missing_counterexample:
  "getProp (JObj []) (js ''name'') = Inr JUndefined
   \<and> sanitize sampleNumberToString (JObj []) (js ''name'') = Inr (JStr [])
   \<and> sanitize sampleNumberToString (JObj []) (js ''name'') \<noteq> Inr JNull"
  by code_simp

lemma strictEquals_primitive [simp]:
  "strictEquals raw JUndefined \<longleftrightarrow> raw = JUndefined"
  "strictEquals raw JNull \<longleftrightarrow> raw = JNull"
  "strictEquals raw (JStr []) \<longleftrightarrow> raw = JStr []"
  by (cases raw; auto)+

lemma integerColumn_simps:
  "col \<in> set integerColumns \<Longrightarrow>
     col \<noteq> js ''installationdate'' \<and> col \<noteq> js ''amcamt''
     \<and> (col = js ''priorty'' \<or> col = js ''clients'' \<or> col = js ''sp'')"
  by (auto simp: integerColumns_def js_def)

lemma floatColumn_simps:
  "col \<in> set floatColumns \<Longrightarrow> col \<noteq> js ''installationdate'' \<and> col = js ''amcamt''"
  by (auto simp: floatColumns_def js_def)

lemma coerce_integer:
  assumes "col \<in> set integerColumns"
  shows "coerce nts col raw =
     (if isNumber raw then Inr raw
      else if raw = JUndefined \<or> raw = JNull \<or> raw = JStr [] then Inr JNull
      else (case ToString nts raw of
              Inl e \<Rightarrow> Inl e
            | Inr str \<Rightarrow> Inr (if falsyNumber (parseInt str) then JNull else JNum (parseInt str))))"
  using integerColumn_simps[OF assms]
  by (cases raw) (auto simp: coerce_def orElse_def falsyNumber_def split: sum.splits)

lemma coerce_float:
  assumes "col \<in> set floatColumns"
  shows "coerce nts col raw =
     (if isNumber raw then Inr raw
      else if raw = JUndefined \<or> raw = JNull \<or> raw = JStr [] then Inr JNull
      else (case ToString nts raw of
              Inl e \<Rightarrow> Inl e
            | Inr str \<Rightarrow> Inr (if falsyNumber (parseFloat str) then JNull else JNum (parseFloat str))))"
  using floatColumn_simps[OF assms]
  by (cases raw) (auto simp: coerce_def orElse_def falsyNumber_def split: sum.splits)

text \<open>
  C6 (as amended). In an integer column (\<^verbatim>\<open>priorty\<close>, \<^verbatim>\<open>clients\<close>, \<^verbatim>\<open>sp\<close>) a number
  passes through unchanged; a missing value, \<^verbatim>\<open>null\<close> and the empty string become
  \<^verbatim>\<open>null\<close>; any other value is converted to a string and parsed with
  \<^verbatim>\<open>parseInt\<close>, and NaN or zero become \<^verbatim>\<open>null\<close>. The float column
  (\<^verbatim>\<open>amcamt\<close>) does the same with \<^verbatim>\<open>parseFloat\<close>. For a scalar value no exception
  is raised; the conversion to a string is the only step that can raise one.
\<close>

theorem numeric_field_coercion:
  "(col \<in> set integerColumns \<longrightarrow>
      (isNumber raw \<longrightarrow> coerce nts col raw = Inr raw)
    \<and> (raw = JUndefined \<or> raw = JNull \<or> raw = JStr [] \<longrightarrow> coerce nts col raw = Inr JNull)
    \<and> (\<not> isNumber raw \<and> raw \<noteq> JUndefined \<and> raw \<noteq> JNull \<and> raw \<noteq> JStr [] \<longrightarrow>
         coerce nts col raw =
           (case ToString nts raw of
              Inl e \<Rightarrow> Inl e
            | Inr str \<Rightarrow>
                Inr (if falsyNumber (parseInt str) then JNull else JNum (parseInt str))))
    \<and> (scalar raw \<longrightarrow> (\<exists>r. coerce nts col raw = Inr r)))
   \<and> (col \<in> set floatColumns \<longrightarrow>
      (isNumber raw \<longrightarrow> coerce nts col raw = Inr raw)
    \<and> (raw = JUndefined \<or> raw = JNull \<or> raw = JStr [] \<longrightarrow> coerce nts col raw = Inr JNull)
    \<and> (\<not> isNumber raw \<and> raw \<noteq> JUndefined \<and> raw \<noteq> JNull \<and> raw \<noteq> JStr [] \<longrightarrow>
         coerce nts col raw =
           (case ToString nts raw of
              Inl e \<Rightarrow> Inl e
            | Inr str \<Rightarrow>
                Inr (if falsyNumber (parseFloat str) then JNull else JNum (parseFloat str))))
    \<and> (scalar raw \<longrightarrow> (\<exists>r. coerce nts col raw = Inr r)))"
proof -
  have int_scalar: "\<exists>r. coerce nts col raw = Inr r"
    if a: "col \<in> set integerColumns" and b: "scalar raw"
    using ToString_scalar[OF b, of nts] by (auto simp: coerce_integer[OF a])
  have float_scalar: "\<exists>r. coerce nts col raw = Inr r"
    if a: "col \<in> set floatColumns" and b: "scalar raw"
    using ToString_scalar[OF b, of nts] by (auto simp: coerce_float[OF a])
  have rest: "isNumber raw \<Longrightarrow> raw \<noteq> JUndefined \<and> raw \<noteq> JNull \<and> raw \<noteq> JStr []"
    by (cases raw) auto
  show ?thesis
    using int_scalar float_scalar rest
    by (auto simp: coerce_integer coerce_float)
qed

theorem numeric_field_coercion_witness:
  "coerce sampleNumberToString (js ''priorty'') (JStr (js ''42'')) = Inr (JNum (Finite 42))
   \<and> coerce sampleNumberToString (js ''priorty'') (JStr []) = Inr JNull
   \<and> coerce sampleNumberToString (js ''amcamt'') (JStr (js ''3.14''))
       = Inr (JNum (round64 (157 / 50)))
   \<and> coerce sampleNumberToString (js ''priorty'') (JNum (Finite 7)) = Inr (JNum (Finite 7))"
proof -
  have c1: "js ''priorty'' \<in> set integerColumns" by code_simp
  have c2: "js ''amcamt'' \<in> set floatColumns" by code_simp
  have p1: "parseInt (js ''42'') = Finite 42" by code_simp
  have p2: "parseFloat (js ''3.14'') = round64 (157 / 50)" by code_simp
  have p3: "\<not> falsyNumber (round64 (157 / 50))" by code_simp
  have p4: "\<not> falsyNumber (Finite 42)" by code_simp
  have s1: "js ''42'' \<noteq> []" "js ''3.14'' \<noteq> []" by (simp_all add: js_def)
  from numeric_field_coercion[of "js ''priorty''" "JStr (js ''42'')" sampleNumberToString]
       numeric_field_coercion[of "js ''priorty''" "JStr []" sampleNumberToString]
       numeric_field_coercion[of "js ''amcamt''" "JStr (js ''3.14'')" sampleNumberToString]
       numeric_field_coercion[of "js ''priorty''" "JNum (Finite 7)" sampleNumberToString]
       c1 c2 p1 p2 p3 p4 s1
  show ?thesis by simp
qed

text \<open>
  The claim as it is written fails where it says that no exception is ever raised: a
  value that is an object with an own \<^verbatim>\<open>toString\<close> property makes
  \<^verbatim>\<open>parseInt\<close> throw a TypeError.
\<close>

theorem numeric_field_exception_counterexample:
  "coerce sampleNumberToString (js ''priorty'') toStringObject
     = Inl (TypeError (js ''Cannot convert object to primitive value''))"
  by code_simp



section \<open>The transaction: traces and rollback\<close>

lemma query_rejected:
  "rejects be (db st) sql = Some m \<Longrightarrow>
     query be sql st = (Some (QueryError m), st\<lparr>trace := trace st @ [Query sql (Some m)]\<rparr>)"
  by (simp add: query_def)

lemma query_result:
  "query be sql st = (r, st') \<Longrightarrow>
     (r = None \<and> trace st' = trace st @ [Query sql None]
        \<and> rejects be (db st) sql = None \<and> exec sql (db st) = Inr (db st'))
     \<or> (\<exists>m. r = Some (QueryError m) \<and> trace st' = trace st @ [Query sql (Some m)]
           \<and> db st' = db st)"
  by (auto simp: query_def split: option.splits sum.splits)

lemma query_None:
  "query be sql st = (None, st') \<Longrightarrow>
     trace st' = trace st @ [Query sql None] \<and> exec sql (db st) = Inr (db st')
     \<and> rejects be (db st) sql = None"
  using query_result[of be sql st None st'] by auto

lemma query_Some:
  "query be sql st = (Some e, st') \<Longrightarrow>
     \<exists>m. e = QueryError m \<and> trace st' = trace st @ [Query sql (Some m)] \<and> db st' = db st"
  using query_result[of be sql st "Some e" st'] by auto

lemma exec_in_transaction:
  assumes "exec sql s = Inr d" "clearOrInsert sql" "pending s \<noteq> None"
  shows "committed d = committed s \<and> pending d \<noteq> None"
  using assms
  by (cases sql) (auto simp: writeTables_def split: option.splits if_splits)

lemma exec_BEGIN:
  "exec BEGIN s = Inr d \<Longrightarrow> committed d = committed s \<and> pending d \<noteq> None"
  by (auto split: option.splits)

lemma queries_shape:
  "queries be sqls st = (r, st') \<Longrightarrow>
     \<exists>oks tl. list_all accepted oks \<and> trace st' = trace st @ oks @ tl
       \<and> (case r of None \<Rightarrow> tl = [] | Some e \<Rightarrow> failureTail e tl \<and> tl \<noteq> [])"
proof (induction sqls arbitrary: st)
  case Nil
  then show ?case by (intro exI[of _ "[]"]) auto
next
  case (Cons sql rest)
  obtain r1 st1 where q: "query be sql st = (r1, st1)" by (cases "query be sql st")
  show ?case
  proof (cases r1)
    case None
    with q Cons.prems have rec: "queries be rest st1 = (r, st')" by simp
    from Cons.IH[OF rec] obtain oks tl where
      h: "list_all accepted oks" "trace st' = trace st1 @ oks @ tl"
         "(case r of None \<Rightarrow> tl = [] | Some e \<Rightarrow> failureTail e tl \<and> tl \<noteq> [])"
      by blast
    from q None have t1: "trace st1 = trace st @ [Query sql None]"
      using query_None by blast
    show ?thesis
      using h t1 by (intro exI[of _ "Query sql None # oks"] exI[of _ tl]) auto
  next
    case (Some e)
    with q Cons.prems have r: "r = Some e" "st' = st1" by auto
    from q Some obtain m where "e = QueryError m" "trace st1 = trace st @ [Query sql (Some m)]"
      using query_Some by blast
    then show ?thesis
      using r by (intro exI[of _ "[]"] exI[of _ "[Query sql (Some m)]"]) (auto simp: failureTail_def)
  qed
qed

lemma queries_in_transaction:
  "queries be sqls st = (r, st') \<Longrightarrow> list_all clearOrInsert sqls \<Longrightarrow> pending (db st) \<noteq> None \<Longrightarrow>
     committed (db st') = committed (db st) \<and> pending (db st') \<noteq> None"
proof (induction sqls arbitrary: st)
  case Nil
  then show ?case by simp
next
  case (Cons sql rest)
  obtain r1 st1 where q: "query be sql st = (r1, st1)" by (cases "query be sql st")
  show ?case
  proof (cases r1)
    case None
    with q Cons.prems have rec: "queries be rest st1 = (r, st')" by simp
    from q None have "exec sql (db st) = Inr (db st1)" using query_None by blast
    then have inv: "committed (db st1) = committed (db st) \<and> pending (db st1) \<noteq> None"
      using exec_in_transaction[of sql "db st" "db st1"] Cons.prems by simp
    from Cons.IH[OF rec] Cons.prems inv show ?thesis by simp
  next
    case (Some e)
    with q Cons.prems have "st' = st1" by auto
    moreover from q Some have "db st1 = db st" using query_Some by blast
    ultimately show ?thesis using Cons.prems by simp
  qed
qed

lemma insertLoop_shape:
  "insertLoop v nts be t records i inserted st = (r, st') \<Longrightarrow>
     \<exists>oks tl. list_all accepted oks \<and> trace st' = trace st @ oks @ tl
       \<and> (case r of Inr n \<Rightarrow> tl = [] | Inl e \<Rightarrow> failureTail e tl)"
proof (induction v nts be t records i inserted st rule: insertLoop.induct)
  case (1 v nts be t records i inserted st)
  show ?case
  proof (cases "i < length records")
    case False
    with "1.prems" show ?thesis
      by (intro exI[of _ "[]"]) (auto simp: insertLoop.simps)
  next
    case True
    let ?chunk = "take (chunkSize v) (drop i records)"
    show ?thesis
    proof (cases "buildInsert v nts t ?chunk")
      case (Inl e)
      with True "1.prems" have "r = Inl e" "st' = st"
        by (auto simp: insertLoop.simps)
      then show ?thesis
        by (intro exI[of _ "[]"]) (auto simp: failureTail_def)
    next
      case (Inr sql)
      obtain r1 st1 where q: "query be sql st = (r1, st1)" by (cases "query be sql st")
      show ?thesis
      proof (cases r1)
        case None
        with True Inr q "1.prems" have rec:
          "insertLoop v nts be t records (i + chunkSize v) (inserted + length ?chunk) st1 = (r, st')"
          by (simp add: insertLoop.simps[of v nts be t records i])
        from "1.IH"[OF True refl Inr _ _ rec] q None obtain oks tl where
          h: "list_all accepted oks" "trace st' = trace st1 @ oks @ tl"
             "(case r of Inr n \<Rightarrow> tl = [] | Inl e \<Rightarrow> failureTail e tl)"
          by auto
        from q None have t1: "trace st1 = trace st @ [Query sql None]"
          using query_None by blast
        show ?thesis
          using h t1 by (intro exI[of _ "Query sql None # oks"] exI[of _ tl]) auto
      next
        case (Some e)
        with True Inr q "1.prems" have r: "r = Inl e" "st' = st1"
          by (auto simp: insertLoop.simps[of v nts be t records i])
        from q Some obtain m where "e = QueryError m" "trace st1 = trace st @ [Query sql (Some m)]"
          using query_Some by blast
        then show ?thesis
          using r by (intro exI[of _ "[]"] exI[of _ "[Query sql (Some m)]"]) (auto simp: failureTail_def)
      qed
    qed
  qed
qed


lemma buildInsert_is_insert:
  "buildInsert v nts t chunk = Inr sql \<Longrightarrow> \<exists>cols ps params. sql = INSERT_INTO t cols ps params"
  by (cases v) (auto split: sum.splits prod.splits)

lemma insertLoop_in_transaction:
  "insertLoop v nts be t records i inserted st = (r, st') \<Longrightarrow> pending (db st) \<noteq> None \<Longrightarrow>
     committed (db st') = committed (db st) \<and> pending (db st') \<noteq> None"
proof (induction v nts be t records i inserted st rule: insertLoop.induct)
  case (1 v nts be t records i inserted st)
  show ?case
  proof (cases "i < length records")
    case False
    with "1.prems" show ?thesis by (auto simp: insertLoop.simps)
  next
    case True
    let ?chunk = "take (chunkSize v) (drop i records)"
    show ?thesis
    proof (cases "buildInsert v nts t ?chunk")
      case (Inl e)
      with True "1.prems" show ?thesis by (auto simp: insertLoop.simps)
    next
      case (Inr sql)
      obtain r1 st1 where q: "query be sql st = (r1, st1)" by (cases "query be sql st")
      have ins: "clearOrInsert sql" using buildInsert_is_insert[OF Inr] by auto
      show ?thesis
      proof (cases r1)
        case None
        with True Inr q "1.prems" have rec:
          "insertLoop v nts be t records (i + chunkSize v) (inserted + length ?chunk) st1 = (r, st')"
          by (simp add: insertLoop.simps[of v nts be t records i])
        from q None have "exec sql (db st) = Inr (db st1)" using query_None by blast
        then have inv: "committed (db st1) = committed (db st) \<and> pending (db st1) \<noteq> None"
          using exec_in_transaction[of sql "db st" "db st1"] ins "1.prems" by simp
        from "1.IH"[OF True refl Inr _ _ rec] q None inv show ?thesis by auto
      next
        case (Some e)
        with True Inr q "1.prems" have "st' = st1"
          by (auto simp: insertLoop.simps[of v nts be t records i])
        moreover from q Some have "db st1 = db st" using query_Some by blast
        ultimately show ?thesis using "1.prems" by simp
      qed
    qed
  qed
qed

lemma clearStatements_clear: "list_all clearOrInsert (clearStatements v req t)"
  by (cases v) auto

lemma accepted_append: "list_all accepted (xs @ ys) \<longleftrightarrow> list_all accepted xs \<and> list_all accepted ys"
  by simp

text \<open>The trace of the \<^verbatim>\<open>try\<close> block.\<close>

lemma tryBlock_shape:
  assumes "tryBlock v nts be req t st = (r, st')"
  shows "\<exists>oks tl. list_all accepted oks \<and> trace st' = trace st @ oks @ tl
           \<and> (case r of Inr n \<Rightarrow> tl = [Reply (Response 200 (Inserted n))]
                       | Inl e \<Rightarrow> failureTail e tl)"
proof -
  obtain r1 st1 where q1: "query be BEGIN st = (r1, st1)" by (cases "query be BEGIN st")
  show ?thesis
  proof (cases r1)
    case (Some e)
    with q1 assms have r: "r = Inl e" "st' = st1" by (auto simp: tryBlock_def)
    from q1 Some obtain m where "e = QueryError m" "trace st1 = trace st @ [Query BEGIN (Some m)]"
      using query_Some by blast
    then show ?thesis
      using r by (intro exI[of _ "[]"] exI[of _ "[Query BEGIN (Some m)]"]) (auto simp: failureTail_def)
  next
    case None
    from q1 None have t1: "trace st1 = trace st @ [Query BEGIN None]" using query_None by blast
    obtain r2 st2 where q2: "queries be (clearStatements v req t) st1 = (r2, st2)"
      by (cases "queries be (clearStatements v req t) st1")
    from queries_shape[OF q2] obtain oks2 tl2 where
      h2: "list_all accepted oks2" "trace st2 = trace st1 @ oks2 @ tl2"
          "(case r2 of None \<Rightarrow> tl2 = [] | Some e \<Rightarrow> failureTail e tl2 \<and> tl2 \<noteq> [])"
      by blast
    show ?thesis
    proof (cases r2)
      case (Some e)
      with q1 None q2 assms have r: "r = Inl e" "st' = st2" by (auto simp: tryBlock_def)
      show ?thesis
        using r h2 Some t1
        by (intro exI[of _ "Query BEGIN None # oks2"] exI[of _ tl2]) auto
    next
      case None2: None
      obtain r3 st3 where q3:
        "insertLoop v nts be t (elements (data req)) 0 0 st2 = (r3, st3)"
        by (cases "insertLoop v nts be t (elements (data req)) 0 0 st2")
      from insertLoop_shape[OF q3] obtain oks3 tl3 where
        h3: "list_all accepted oks3" "trace st3 = trace st2 @ oks3 @ tl3"
            "(case r3 of Inr n \<Rightarrow> tl3 = [] | Inl e \<Rightarrow> failureTail e tl3)"
        by blast
      show ?thesis
      proof (cases r3)
        case (Inl e)
        with q1 None q2 None2 q3 assms have r: "r = Inl e" "st' = st3"
          by (auto simp: tryBlock_def)
        show ?thesis
          using r h2 h3 None2 Inl t1
          by (intro exI[of _ "Query BEGIN None # oks2 @ oks3"] exI[of _ tl3]) auto
      next
        case (Inr n)
        obtain r4 st4 where q4: "query be COMMIT st3 = (r4, st4)" by (cases "query be COMMIT st3")
        show ?thesis
        proof (cases r4)
          case (Some e)
          with q1 None q2 None2 q3 Inr q4 assms have r: "r = Inl e" "st' = st4"
            by (auto simp: tryBlock_def)
          from q4 Some obtain m where
            "e = QueryError m" "trace st4 = trace st3 @ [Query COMMIT (Some m)]"
            using query_Some by blast
          then show ?thesis
            using r h2 h3 None2 Inr t1
            by (intro exI[of _ "Query BEGIN None # oks2 @ oks3"] exI[of _ "[Query COMMIT (Some m)]"])
               (auto simp: failureTail_def)
        next
          case None4: None
          with q1 None q2 None2 q3 Inr q4 assms have r: "r = Inr n"
            "st' = st4\<lparr>trace := trace st4 @ [Reply (Response 200 (Inserted n))]\<rparr>"
            by (auto simp: tryBlock_def)
          from q4 None4 have "trace st4 = trace st3 @ [Query COMMIT None]"
            using query_None by blast
          then show ?thesis
            using r h2 h3 None2 Inr t1
            by (intro exI[of _ "Query BEGIN None # oks2 @ oks3 @ [Query COMMIT None]"]
                      exI[of _ "[Reply (Response 200 (Inserted n))]"]) auto
        qed
      qed
    qed
  qed
qed

text \<open>A failed \<^verbatim>\<open>try\<close> block has not touched the committed tables.\<close>

lemma tryBlock_failed_committed:
  assumes "tryBlock v nts be req t st = (Inl e, st')"
  shows "committed (db st') = committed (db st)"
proof -
  obtain r1 st1 where q1: "query be BEGIN st = (r1, st1)" by (cases "query be BEGIN st")
  show ?thesis
  proof (cases r1)
    case (Some e1)
    with q1 assms have "st' = st1" by (auto simp: tryBlock_def)
    moreover from q1 Some have "db st1 = db st" using query_Some by blast
    ultimately show ?thesis by simp
  next
    case None
    from q1 None have "exec BEGIN (db st) = Inr (db st1)" using query_None by blast
    then have i1: "committed (db st1) = committed (db st)" "pending (db st1) \<noteq> None"
      using exec_BEGIN by blast+
    obtain r2 st2 where q2: "queries be (clearStatements v req t) st1 = (r2, st2)"
      by (cases "queries be (clearStatements v req t) st1")
    from queries_in_transaction[OF q2 clearStatements_clear i1(2)]
    have i2: "committed (db st2) = committed (db st1)" "pending (db st2) \<noteq> None" by auto
    show ?thesis
    proof (cases r2)
      case (Some e2)
      with q1 None q2 assms have "st' = st2" by (auto simp: tryBlock_def)
      then show ?thesis using i1 i2 by simp
    next
      case None2: None
      obtain r3 st3 where q3:
        "insertLoop v nts be t (elements (data req)) 0 0 st2 = (r3, st3)"
        by (cases "insertLoop v nts be t (elements (data req)) 0 0 st2")
      from insertLoop_in_transaction[OF q3 i2(2)]
      have i3: "committed (db st3) = committed (db st2)" by simp
      show ?thesis
      proof (cases r3)
        case (Inl e3)
        with q1 None q2 None2 q3 assms have "st' = st3" by (auto simp: tryBlock_def)
        then show ?thesis using i1 i2 i3 by simp
      next
        case (Inr n)
        obtain r4 st4 where q4: "query be COMMIT st3 = (r4, st4)" by (cases "query be COMMIT st3")
        show ?thesis
        proof (cases r4)
          case (Some e4)
          with q1 None q2 None2 q3 Inr q4 assms have "st' = st4" by (auto simp: tryBlock_def)
          moreover from q4 Some have "db st4 = db st3" using query_Some by blast
          ultimately show ?thesis using i1 i2 i3 by simp
        next
          case None4: None
          with q1 None q2 None2 q3 Inr q4 assms show ?thesis by (auto simp: tryBlock_def)
        qed
      qed
    qed
  qed
qed


lemma query_ROLLBACK:
  "query be ROLLBACK st = (r, st') \<Longrightarrow>
     (r = None \<and> rejects be (db st) ROLLBACK = None
        \<and> st' = \<lparr>db = (db st)\<lparr>pending := None\<rparr>, trace = trace st @ [Query ROLLBACK None]\<rparr>)
     \<or> (\<exists>m. r = Some (QueryError m) \<and> rejects be (db st) ROLLBACK = Some m
           \<and> st' = st\<lparr>trace := trace st @ [Query ROLLBACK (Some m)]\<rparr>)"
  by (auto simp: query_def split: option.splits)

text \<open>Every way a request can go.\<close>

lemma syncHandler_cases:
  fixes v cfg be req s
  defines "out \<equiv> syncHandler v cfg be req s"
  obtains
    (unauthorized) "\<not> strictEquals (apiKey req) (envValue (API_KEY cfg))"
      "out = \<lparr>finalStore = s, events = [Reply invalidApiKey], uncaught = None\<rparr>"
  | (badPayload) "strictEquals (apiKey req) (envValue (API_KEY cfg))" "\<not> isArray (data req)"
      "out = \<lparr>finalStore = s, events = [Reply invalidDataFormat], uncaught = None\<rparr>"
  | (thrown) e where "strictEquals (apiKey req) (envValue (API_KEY cfg))" "isArray (data req)"
      "out = \<lparr>finalStore = s, events = [], uncaught = Some e\<rparr>"
      "targetTable v cfg req = Inl e
       \<or> (\<exists>tt. targetTable v cfg req = Inr tt \<and> ToString (numberToString cfg) tt = Inl e)"
  | (noConnection) m where "strictEquals (apiKey req) (envValue (API_KEY cfg))"
      "isArray (data req)" "connectError be = Some m"
      "out = \<lparr>finalStore = s, events = [Connect (Some m)], uncaught = Some (QueryError m)\<rparr>"
  | (success) tt t n st oks where "strictEquals (apiKey req) (envValue (API_KEY cfg))"
      "isArray (data req)" "connectError be = None"
      "targetTable v cfg req = Inr tt" "ToString (numberToString cfg) tt = Inr t"
      "tryBlock v (numberToString cfg) be req t \<lparr>db = s, trace = [Connect None]\<rparr> = (Inr n, st)"
      "list_all accepted oks"
      "out = \<lparr>finalStore = db st,
              events = Connect None # oks @ [Reply (Response 200 (Inserted n)), Release],
              uncaught = None\<rparr>"
  | (rolledBack) tt t e st oks tl where "strictEquals (apiKey req) (envValue (API_KEY cfg))"
      "isArray (data req)" "connectError be = None"
      "targetTable v cfg req = Inr tt" "ToString (numberToString cfg) tt = Inr t"
      "tryBlock v (numberToString cfg) be req t \<lparr>db = s, trace = [Connect None]\<rparr> = (Inl e, st)"
      "list_all accepted oks" "failureTail e tl" "rejects be (db st) ROLLBACK = None"
      "out = \<lparr>finalStore = (db st)\<lparr>pending := None\<rparr>,
              events = Connect None # oks @ tl
                 @ [Query ROLLBACK None, Reply (Response 500 (Failed (message e))), Release],
              uncaught = None\<rparr>"
  | (rollbackFailed) tt t e st oks tl m where "strictEquals (apiKey req) (envValue (API_KEY cfg))"
      "isArray (data req)" "connectError be = None"
      "targetTable v cfg req = Inr tt" "ToString (numberToString cfg) tt = Inr t"
      "tryBlock v (numberToString cfg) be req t \<lparr>db = s, trace = [Connect None]\<rparr> = (Inl e, st)"
      "list_all accepted oks" "failureTail e tl" "rejects be (db st) ROLLBACK = Some m"
      "out = \<lparr>finalStore = db st,
              events = Connect None # oks @ tl @ [Query ROLLBACK (Some m), Release],
              uncaught = Some (QueryError m)\<rparr>"
proof (cases "strictEquals (apiKey req) (envValue (API_KEY cfg))")
  case False
  then show ?thesis using unauthorized by (simp add: out_def syncHandler_def)
next
  case auth: True
  show ?thesis
  proof (cases "isArray (data req)")
    case False
    then show ?thesis using badPayload auth by (simp add: out_def syncHandler_def)
  next
    case arr: True
    show ?thesis
    proof (cases "targetTable v cfg req")
      case (Inl e)
      then show ?thesis using thrown[of e] auth arr by (simp add: out_def syncHandler_def)
    next
      case tt: (Inr tt)
      show ?thesis
      proof (cases "ToString (numberToString cfg) tt")
        case (Inl e)
        then show ?thesis using thrown[of e] auth arr tt by (simp add: out_def syncHandler_def)
      next
        case t: (Inr t)
        show ?thesis
        proof (cases "connectError be")
          case (Some m)
          then show ?thesis
            using noConnection[of m] auth arr tt t by (simp add: out_def syncHandler_def)
        next
          case conn: None
          obtain r st where tb:
            "tryBlock v (numberToString cfg) be req t \<lparr>db = s, trace = [Connect None]\<rparr> = (r, st)"
            by (cases "tryBlock v (numberToString cfg) be req t \<lparr>db = s, trace = [Connect None]\<rparr>")
          from tryBlock_shape[OF tb] obtain oks tl where
            sh: "list_all accepted oks" "trace st = [Connect None] @ oks @ tl"
                "(case r of Inr n \<Rightarrow> tl = [Reply (Response 200 (Inserted n))]
                          | Inl e \<Rightarrow> failureTail e tl)"
            by auto
          show ?thesis
          proof (cases r)
            case (Inr n)
            with sh have "trace st = Connect None # oks @ [Reply (Response 200 (Inserted n))]"
              by simp
            then show ?thesis
              using success[of tt t n st oks] auth arr tt t conn tb Inr sh(1)
              by (simp add: out_def syncHandler_def)
          next
            case (Inl e)
            with sh have tr: "trace st = Connect None # oks @ tl" and ft: "failureTail e tl"
              by simp_all
            obtain r' st' where q: "query be ROLLBACK st = (r', st')"
              by (cases "query be ROLLBACK st")
            from query_ROLLBACK[OF q] show ?thesis
            proof
              assume a: "r' = None \<and> rejects be (db st) ROLLBACK = None
                \<and> st' = \<lparr>db = (db st)\<lparr>pending := None\<rparr>, trace = trace st @ [Query ROLLBACK None]\<rparr>"
              then show ?thesis
                using rolledBack[of tt t e st oks tl] auth arr tt t conn tb Inl sh(1) ft tr q
                by (simp add: out_def syncHandler_def)
            next
              assume "\<exists>m. r' = Some (QueryError m) \<and> rejects be (db st) ROLLBACK = Some m
                \<and> st' = st\<lparr>trace := trace st @ [Query ROLLBACK (Some m)]\<rparr>"
              then obtain m where a: "r' = Some (QueryError m)" "rejects be (db st) ROLLBACK = Some m"
                "st' = st\<lparr>trace := trace st @ [Query ROLLBACK (Some m)]\<rparr>" by blast
              then show ?thesis
                using rollbackFailed[of tt t e st oks tl m] auth arr tt t conn tb Inl sh(1) ft tr q
                by (simp add: out_def syncHandler_def)
            qed
          qed
        qed
      qed
    qed
  qed
qed


lemma accepted_not_rejected:
  "list_all accepted oks \<Longrightarrow> Query sql (Some m) \<notin> set oks"
  by (auto simp: list_all_iff)

lemma failureTail_member:
  "failureTail e evs \<Longrightarrow> Query sql (Some m) \<in> set evs \<Longrightarrow> evs = [Query sql (Some m)] \<and> e = QueryError m"
  by (auto simp: failureTail_def)

lemma replies_append [simp]: "replies (xs @ ys) = replies xs @ replies ys"
  by (induction xs rule: replies.induct) auto

lemma replies_accepted: "list_all accepted oks \<Longrightarrow> replies oks = []"
  by (induction oks rule: replies.induct) auto

lemma replies_failureTail: "failureTail e evs \<Longrightarrow> replies evs = []"
  by (auto simp: failureTail_def)

text \<open>
  What the \<^verbatim>\<open>catch\<close> block does when the \<^verbatim>\<open>ROLLBACK\<close> it sends is accepted.
\<close>

lemma failed_statement_rolls_back:
  "Query sql (Some m) \<in> set (events (syncHandler v cfg be req s)) \<and> clearOrInsert sql
     \<and> (\<forall>m'. Query ROLLBACK (Some m') \<notin> set (events (syncHandler v cfg be req s))) \<longrightarrow>
   (\<exists>oks. list_all accepted oks
      \<and> events (syncHandler v cfg be req s) =
          Connect None # oks
            @ [Query sql (Some m), Query ROLLBACK None, Reply (Response 500 (Failed m)), Release])
   \<and> committed (finalStore (syncHandler v cfg be req s)) = committed s
   \<and> pending (finalStore (syncHandler v cfg be req s)) = None
   \<and> uncaught (syncHandler v cfg be req s) = None"
proof (intro impI, elim conjE)
  assume mem: "Query sql (Some m) \<in> set (events (syncHandler v cfg be req s))"
    and kind: "clearOrInsert sql"
    and rb: "\<forall>m'. Query ROLLBACK (Some m') \<notin> set (events (syncHandler v cfg be req s))"
  show "(\<exists>oks. list_all accepted oks
      \<and> events (syncHandler v cfg be req s) =
          Connect None # oks
            @ [Query sql (Some m), Query ROLLBACK None, Reply (Response 500 (Failed m)), Release])
   \<and> committed (finalStore (syncHandler v cfg be req s)) = committed s
   \<and> pending (finalStore (syncHandler v cfg be req s)) = None
   \<and> uncaught (syncHandler v cfg be req s) = None"
  proof (cases v cfg be req s rule: syncHandler_cases)
    case unauthorized
    with mem show ?thesis by simp
  next
    case badPayload
    with mem show ?thesis by simp
  next
    case (thrown e)
    with mem show ?thesis by simp
  next
    case (noConnection m')
    with mem show ?thesis by simp
  next
    case (success tt t n st oks)
    with mem accepted_not_rejected[of oks sql m] show ?thesis by auto
  next
    case (rolledBack tt t e st oks evs)
    from mem rolledBack(10) kind accepted_not_rejected[OF rolledBack(7), of sql m]
    have "Query sql (Some m) \<in> set evs" by auto
    from failureTail_member[OF rolledBack(8) this]
    have tl: "evs = [Query sql (Some m)]" and e: "e = QueryError m" by simp_all
    have "committed (db st) = committed s"
      using tryBlock_failed_committed[OF rolledBack(6)] by simp
    then show ?thesis
      using rolledBack(7,10) tl e by auto
  next
    case (rollbackFailed tt t e st oks evs m')
    then have "Query ROLLBACK (Some m') \<in> set (events (syncHandler v cfg be req s))" by simp
    with rb show ?thesis by blast
  qed
qed

lemma type_constraint_rolls_back:
  "replies (events (syncHandler ServerJs sampleConfig typeConstraint sampleRequest oldStore))
     = [Response 500 (Failed (js ''invalid input syntax for type integer''))]
   \<and> committed (finalStore (syncHandler ServerJs sampleConfig typeConstraint sampleRequest oldStore))
       = committed oldStore"
proof -
  have h1: "Query sampleInsert (Some (js ''invalid input syntax for type integer''))
              \<in> set (events (syncHandler ServerJs sampleConfig typeConstraint sampleRequest oldStore))"
    by code_simp
  have h2: "clearOrInsert sampleInsert" by code_simp
  have h3: "\<forall>m'. Query ROLLBACK (Some m')
              \<notin> set (events (syncHandler ServerJs sampleConfig typeConstraint sampleRequest oldStore))"
  proof -
    have "events (syncHandler ServerJs sampleConfig typeConstraint sampleRequest oldStore) =
       [Connect None, Query BEGIN None, Query (DELETE_FROM (js ''rrc_clients'')) None,
        Query sampleInsert (Some (js ''invalid input syntax for type integer'')),
        Query ROLLBACK None,
        Reply (Response 500 (Failed (js ''invalid input syntax for type integer''))), Release]"
      by code_simp
    then show ?thesis by (simp add: sampleInsert_def)
  qed
  from failed_statement_rolls_back
         [of sampleInsert "js ''invalid input syntax for type integer''" ServerJs sampleConfig
             typeConstraint sampleRequest oldStore]
       h1 h2 h3
  obtain oks where "list_all accepted oks"
    "events (syncHandler ServerJs sampleConfig typeConstraint sampleRequest oldStore) =
       Connect None # oks
         @ [Query sampleInsert (Some (js ''invalid input syntax for type integer'')),
            Query ROLLBACK None,
            Reply (Response 500 (Failed (js ''invalid input syntax for type integer''))), Release]"
    "committed (finalStore (syncHandler ServerJs sampleConfig typeConstraint sampleRequest oldStore))
       = committed oldStore"
    by blast
  then show ?thesis by (simp add: replies_accepted)
qed

text \<open>
  C1. For every authorized request with an array payload, a statement of the clearing or
  of the insertion that fails is to be followed by a rollback and by a 500 response that
  carries the text of the error. \<^verbatim>\<open>src/server.js\<close> and \<^verbatim>\<open>part_001\<close> depart from
  this when the connection is lost during the inserts: the store rejects the insert and
  then the \<^verbatim>\<open>ROLLBACK\<close> that the \<^verbatim>\<open>catch\<close> block awaits; this \<^verbatim>\<open>await\<close> throws
  inside the \<^verbatim>\<open>catch\<close> block, \<^verbatim>\<open>res.status(500)\<close> is not reached and the handler
  sends no response; the exception leaves the handler with the text of the second
  rejection, after \<^verbatim>\<open>finally\<close> has released the connection.
\<close>

theorem rollback_rejected_no_response:
  "events (syncHandler ServerJs sampleConfig lostConnection sampleRequest oldStore) =
     [Connect None, Query BEGIN None, Query (DELETE_FROM (js ''rrc_clients'')) None,
      Query sampleInsert (Some (js ''Connection terminated unexpectedly'')),
      Query ROLLBACK (Some (js ''Client has encountered a connection error and is not queryable'')),
      Release]
   \<and> clearOrInsert sampleInsert
   \<and> replies (events (syncHandler ServerJs sampleConfig lostConnection sampleRequest oldStore)) = []
   \<and> uncaught (syncHandler ServerJs sampleConfig lostConnection sampleRequest oldStore)
       = Some (QueryError (js ''Client has encountered a connection error and is not queryable''))
   \<and> replies (events (syncHandler Part001 sampleConfig lostConnection sampleRequest oldStore)) = []
   \<and> uncaught (syncHandler Part001 sampleConfig lostConnection sampleRequest oldStore)
       = Some (QueryError (js ''Client has encountered a connection error and is not queryable''))"
  by code_simp

text \<open>
  C9. Without a configured secret (\<^verbatim>\<open>API_KEY\<close> absent), a request without
  \<^verbatim>\<open>apiKey\<close> passes the gate: \<^verbatim>\<open>undefined === undefined\<close>, and the handler never
  answers it with 401. The gate rejects exactly the requests whose \<^verbatim>\<open>apiKey\<close> is not
  strictly equal to the configured value.
\<close>

theorem absent_secret_admits_missing_key:
  "(API_KEY cfg = None \<and> apiKey req = JUndefined \<longrightarrow>
      strictEquals (apiKey req) (envValue (API_KEY cfg))
    \<and> Response 401 (Failed (js ''Invalid API key''))
        \<notin> set (replies (events (syncHandler v cfg be req s))))
   \<and> (events (syncHandler v cfg be req s) = [Reply (Response 401 (Failed (js ''Invalid API key'')))]
        \<longleftrightarrow> \<not> strictEquals (apiKey req) (envValue (API_KEY cfg)))"
proof -
  have gate: "events (syncHandler v cfg be req s) = [Reply (Response 401 (Failed (js ''Invalid API key'')))]
        \<longleftrightarrow> \<not> strictEquals (apiKey req) (envValue (API_KEY cfg))"
    by (cases v cfg be req s rule: syncHandler_cases)
       (auto simp: invalidApiKey_def invalidDataFormat_def)
  have no401: "Response 401 (Failed (js ''Invalid API key''))
        \<notin> set (replies (events (syncHandler v cfg be req s)))"
    if "strictEquals (apiKey req) (envValue (API_KEY cfg))"
    using that
    by (cases v cfg be req s rule: syncHandler_cases)
       (auto simp: invalidDataFormat_def replies_accepted replies_failureTail)
  show ?thesis using gate no401 by (auto simp: envValue_def)
qed

theorem absent_secret_admits_missing_key_witness:
  "API_KEY noSecretConfig = None
   \<and> strictEquals (apiKey (sampleRequest\<lparr>apiKey := JUndefined\<rparr>)) (envValue (API_KEY noSecretConfig))
   \<and> replies (events (syncHandler ServerJs noSecretConfig acceptAll
                        (sampleRequest\<lparr>apiKey := JUndefined\<rparr>) sampleStore))
       = [Response 200 (Inserted 1)]"
proof -
  have h1: "API_KEY noSecretConfig = None" by (simp add: noSecretConfig_def)
  have h2: "apiKey (sampleRequest\<lparr>apiKey := JUndefined\<rparr>) = JUndefined" by simp
  have h3: "replies (events (syncHandler ServerJs noSecretConfig acceptAll
                        (sampleRequest\<lparr>apiKey := JUndefined\<rparr>) sampleStore))
              = [Response 200 (Inserted 1)]"
    by code_simp
  from absent_secret_admits_missing_key
         [of noSecretConfig "sampleRequest\<lparr>apiKey := JUndefined\<rparr>" ServerJs acceptAll sampleStore]
       h1 h2 h3
  show ?thesis by simp
qed



section \<open>The insert of a chunk\<close>

lemma inOrder_length: "inOrder xs = Inr ys \<Longrightarrow> length ys = length xs"
  by (induction xs arbitrary: ys) (auto split: sum.splits)

lemma pushed_length: "pushed v nts row = Inr vs \<Longrightarrow> length vs = length (columns v)"
  by (cases v) (auto dest: inOrder_length)

lemma inOrder_rows_length:
  "inOrder (map (pushed v nts) chunk) = Inr rows \<Longrightarrow>
     length rows = length chunk \<and> list_all (\<lambda>r. length r = length (columns v)) rows"
proof (induction chunk arbitrary: rows)
  case Nil
  then show ?case by simp
next
  case (Cons row rest)
  then show ?case
    by (auto split: sum.splits dest: pushed_length)
qed

lemma forEachNarrow_eq:
  "forEachNarrow v nts chunk idx (phs, vals) =
     (case inOrder (map (pushed v nts) chunk) of
        Inl e \<Rightarrow> Inl e
      | Inr rows \<Rightarrow>
          Inr (phs @ map (\<lambda>i. [(idx + i) * 4 + 1, (idx + i) * 4 + 2, (idx + i) * 4 + 3, (idx + i) * 4 + 4])
                       [0..<length chunk],
               vals @ concat rows))"
proof (induction chunk arbitrary: idx phs vals)
  case Nil
  then show ?case by simp
next
  case (Cons row rest)
  show ?case
    by (simp add: Cons.IH map_upt_Suc Let_def del: upt_Suc split: sum.splits)
qed

lemma columnsForEach_eq:
  "columnsForEach nts row cols (c, rp, vals) =
     (case inOrder (map (\<lambda>col. case getProp row col of Inl e \<Rightarrow> Inl e | Inr raw \<Rightarrow> coerce nts col raw) cols) of
        Inl e \<Rightarrow> Inl e
      | Inr vs \<Rightarrow> Inr (c + length cols, rp @ [c..<c + length cols], vals @ vs))"
proof (induction cols arbitrary: c rp vals)
  case Nil
  then show ?case by simp
next
  case (Cons col rest)
  have upt: "[c..<Suc (c + length rest)] = c # [Suc c..<Suc (c + length rest)]"
    by (simp add: upt_conv_Cons del: upt_Suc)
  show ?case
    by (simp add: Cons.IH upt del: upt_Suc split: sum.splits)
qed

lemma length_wideColumns: "length wideColumns = 20"
  by (simp add: wideColumns_def)

lemma length_narrowColumns: "length narrowColumns = 4"
  by (simp add: narrowColumns_def)

lemma forEachWide_eq:
  "forEachWide nts chunk (c, phs, vals) =
     (case inOrder (map (pushed Part000A nts) chunk) of
        Inl e \<Rightarrow> Inl e
      | Inr rows \<Rightarrow>
          Inr (c + 20 * length chunk,
               phs @ map (\<lambda>i. [c + 20 * i..<c + 20 * i + 20]) [0..<length chunk],
               vals @ concat rows))"
proof (induction chunk arbitrary: c phs vals)
  case Nil
  then show ?case by simp
next
  case (Cons row rest)
  show ?case
    by (simp add: Cons.IH columnsForEach_eq length_wideColumns map_upt_Suc add.assoc
             del: upt_Suc split: sum.splits)
qed

lemma numbering_row: "map (\<lambda>j. i * k + j + 1) [0..<k] = [i * k + 1..<i * k + 1 + k]"
  by (rule nth_equalityI) (simp_all del: upt_Suc)

lemma buildInsert_eq:
  "buildInsert v nts t chunk =
     (case inOrder (map (pushed v nts) chunk) of
        Inl e \<Rightarrow> Inl e
      | Inr rows \<Rightarrow>
          Inr (INSERT_INTO t (columns v) (numbering (length (columns v)) (length chunk))
                 (concat rows)))"
proof -
  have four: "[0..<4] = [0, 1, 2, 3::nat]"
    by (simp add: upt_rec)
  have twenty: "\<And>x::nat. [Suc (20 * x)..<21 + 20 * x] = map (\<lambda>j. Suc (x * 20 + j)) [0..<20]"
    by (rule nth_equalityI) (simp_all del: upt_Suc)
  show ?thesis
    by (cases v)
       (simp_all add: forEachNarrow_eq forEachWide_eq numbering_def length_wideColumns
          length_narrowColumns four twenty split: sum.splits)
qed

lemma nth_concat_uniform:
  "\<forall>r\<in>set rows. length r = k \<Longrightarrow> i < length rows \<Longrightarrow> j < k \<Longrightarrow>
     concat rows ! (i * k + j) = rows ! i ! j"
proof (induction rows arbitrary: i)
  case Nil
  then show ?case by simp
next
  case (Cons r rs)
  show ?case
  proof (cases i)
    case 0
    with Cons.prems show ?thesis by (simp add: nth_append)
  next
    case (Suc i')
    with Cons.prems have "concat rs ! (i' * k + j) = rs ! i' ! j"
      using Cons.IH[of i'] by simp
    with Suc Cons.prems show ?thesis by (simp add: nth_append)
  qed
qed

lemma length_concat_uniform:
  "\<forall>r\<in>set rows. length r = k \<Longrightarrow> length (concat rows) = length rows * k"
  by (induction rows) auto

lemma placeholder_in_range:
  assumes "i < n" "j < k"
  shows "i * k + j < n * (k::nat)"
proof -
  have "i * k + j < i * k + k" using assms(2) by simp
  also have "\<dots> = Suc i * k" by simp
  also have "\<dots> \<le> n * k" using assms(1) by (intro mult_le_mono1) simp
  finally show ?thesis .
qed

lemma bindRows_numbering:
  assumes "list_all (\<lambda>r. length r = k) rows"
  shows "bindRows (numbering k (length rows)) (concat rows) = Some rows"
proof -
  have all: "\<forall>r\<in>set rows. length r = k" using assms by (simp add: list_all_iff)
  have len: "length (concat rows) = length rows * k"
    using length_concat_uniform[OF all] .
  have range: "list_all (list_all (\<lambda>p. 1 \<le> p \<and> p \<le> length (concat rows))) (numbering k (length rows))"
    using placeholder_in_range[of _ "length rows" _ k]
    by (auto simp: numbering_def list_all_iff len Suc_le_eq)
  have rows: "map (map (\<lambda>p. concat rows ! (p - 1))) (numbering k (length rows)) = rows"
  proof (rule nth_equalityI)
    show "length (map (map (\<lambda>p. concat rows ! (p - 1))) (numbering k (length rows))) = length rows"
      by (simp add: numbering_def)
  next
    fix i assume "i < length (map (map (\<lambda>p. concat rows ! (p - 1))) (numbering k (length rows)))"
    then have i: "i < length rows" by (simp add: numbering_def)
    then have li: "length (rows ! i) = k" using all by simp
    have "map (\<lambda>p. concat rows ! (p - 1)) (map (\<lambda>j. i * k + j + 1) [0..<k]) = rows ! i"
      by (rule nth_equalityI) (auto simp: li nth_concat_uniform[OF all i])
    then show "map (map (\<lambda>p. concat rows ! (p - 1))) (numbering k (length rows)) ! i = rows ! i"
      using i by (simp add: numbering_def)
  qed
  show ?thesis using range rows by (simp add: bindRows_def)
qed

lemma exec_buildInsert:
  assumes "buildInsert v nts t chunk = Inr sql"
  shows "\<exists>rows. inOrder (map (pushed v nts) chunk) = Inr rows
           \<and> sql = INSERT_INTO t (columns v) (numbering (length (columns v)) (length chunk)) (concat rows)
           \<and> exec sql s = Inr (appendRows t rows s)"
proof -
  from assms obtain rows where
    r: "inOrder (map (pushed v nts) chunk) = Inr rows"
       "sql = INSERT_INTO t (columns v) (numbering (length (columns v)) (length chunk)) (concat rows)"
    by (auto simp: buildInsert_eq split: sum.splits)
  from inOrder_rows_length[OF r(1)] have
    l: "length rows = length chunk" "list_all (\<lambda>r. length r = length (columns v)) rows" by auto
  have "bindRows (numbering (length (columns v)) (length chunk)) (concat rows) = Some rows"
    using bindRows_numbering[OF l(2)] l(1) by simp
  then have "exec sql s = Inr (appendRows t rows s)"
    using r(2) l(2) by (simp add: appendRows_def)
  with r show ?thesis by blast
qed


section \<open>A transaction that commits\<close>

lemma chunkSize_pos: "0 < chunkSize v"
  by (cases v) auto

lemma appendRows_Nil [simp]: "appendRows t [] s = s"
  by (cases "pending s") (simp_all add: appendRows_def writeTables_def working_def)

lemma appendRows_appendRows [simp]:
  "appendRows t b (appendRows t a s) = appendRows t (a @ b) s"
  by (cases "pending s") (simp_all add: appendRows_def writeTables_def working_def)

lemma inOrder_append:
  "inOrder (xs @ ys) =
     (case inOrder xs of
        Inl e \<Rightarrow> Inl e
      | Inr a \<Rightarrow> (case inOrder ys of Inl e \<Rightarrow> Inl e | Inr b \<Rightarrow> Inr (a @ b)))"
  by (induction xs) (auto split: sum.splits)

lemma inOrder_concat:
  "list_all2 (\<lambda>chunk rows. inOrder (map f chunk) = Inr rows) chunks rowss \<Longrightarrow>
     inOrder (map f (concat chunks)) = Inr (concat rowss)"
  by (induction chunks rowss rule: list_all2_induct) (auto simp: inOrder_append)

lemma concat_chunksFrom: "0 < c \<Longrightarrow> concat (chunksFrom c i xs) = drop i xs"
proof (induction c i xs rule: chunksFrom.induct)
  case (1 c i xs)
  show ?case
  proof (cases "i < length xs")
    case True
    have "take c (drop i xs) @ drop (i + c) xs = drop i xs"
      by (metis add.commute append_take_drop_id drop_drop)
    with True 1 show ?thesis by (simp add: chunksFrom.simps[of c i xs])
  next
    case False
    then show ?thesis by (simp add: chunksFrom.simps[of c i xs])
  qed
qed

lemma chunkLengths_step:
  assumes "0 < c" "c \<le> n"
  shows "chunkLengths c n = c # chunkLengths c (n - c)"
proof -
  have "n div c = Suc ((n - c) div c)" using assms by (simp add: le_div_geq)
  moreover have "n mod c = (n - c) mod c" using assms by (simp add: le_mod_geq)
  ultimately show ?thesis by (simp add: chunkLengths_def)
qed

lemma chunkLengths_last:
  assumes "0 < n" "n < c"
  shows "chunkLengths c n = [n]"
  using assms by (simp add: chunkLengths_def)

lemma chunkLengths_0: "chunkLengths c 0 = []"
  by (simp add: chunkLengths_def)

lemma length_chunksFrom:
  "0 < c \<Longrightarrow> map length (chunksFrom c i xs) = chunkLengths c (length xs - i)"
proof (induction c i xs rule: chunksFrom.induct)
  case (1 c i xs)
  show ?case
  proof (cases "i < length xs")
    case False
    then show ?thesis by (simp add: chunksFrom.simps[of c i xs] chunkLengths_0)
  next
    case True
    have ih: "map length (chunksFrom c (i + c) xs) = chunkLengths c (length xs - (i + c))"
      using 1 True by simp
    show ?thesis
    proof (cases "c \<le> length xs - i")
      case le: True
      have "chunkLengths c (length xs - i) = c # chunkLengths c (length xs - i - c)"
        using chunkLengths_step[OF "1.prems" le] .
      with True le ih "1.prems" show ?thesis
        by (simp add: chunksFrom.simps[of c i xs] min_def)
    next
      case gt: False
      then have "chunkLengths c (length xs - i) = [length xs - i]"
        using chunkLengths_last[of "length xs - i" c] True by simp
      moreover have "chunkLengths c (length xs - (i + c)) = []"
        using gt by (simp add: chunkLengths_0)
      ultimately show ?thesis
        using True gt ih "1.prems" by (simp add: chunksFrom.simps[of c i xs] min_def)
    qed
  qed
qed

text \<open>
  A loop that returns has sent one accepted insert per chunk, in order, and has appended
  the rows of every record.
\<close>

lemma insertLoop_success:
  "insertLoop v nts be t records i inserted st = (Inr n, st') \<Longrightarrow>
     \<exists>rowss.
       list_all2 (\<lambda>chunk rows. inOrder (map (pushed v nts) chunk) = Inr rows)
         (chunksFrom (chunkSize v) i records) rowss
       \<and> n = inserted + (length records - i)
       \<and> db st' = appendRows t (concat rowss) (db st)
       \<and> trace st' = trace st
           @ map2 (\<lambda>chunk rows.
                     Query (INSERT_INTO t (columns v)
                              (numbering (length (columns v)) (length chunk)) (concat rows)) None)
               (chunksFrom (chunkSize v) i records) rowss"
proof (induction v nts be t records i inserted st rule: insertLoop.induct)
  case (1 v nts be t records i inserted st)
  show ?case
  proof (cases "i < length records")
    case False
    with "1.prems" have "n = inserted" "st' = st" by (auto simp: insertLoop.simps)
    with False show ?thesis
      by (intro exI[of _ "[]"]) (simp add: chunksFrom.simps[of _ i records])
  next
    case True
    let ?c = "chunkSize v"
    let ?chunk = "take ?c (drop i records)"
    have chunks: "chunksFrom ?c i records = ?chunk # chunksFrom ?c (i + ?c) records"
      using True chunkSize_pos[of v] by (simp add: chunksFrom.simps[of _ i records])
    obtain sql where b: "buildInsert v nts t ?chunk = Inr sql"
      using True "1.prems"
      by (cases "buildInsert v nts t ?chunk") (auto simp: insertLoop.simps[of v nts be t records i])
    obtain r1 st1 where q: "query be sql st = (r1, st1)" by (cases "query be sql st")
    have r1: "r1 = None"
      using True b q "1.prems"
      by (cases r1) (auto simp: insertLoop.simps[of v nts be t records i])
    have rec: "insertLoop v nts be t records (i + ?c) (inserted + length ?chunk) st1 = (Inr n, st')"
      using True b q r1 "1.prems" by (simp add: insertLoop.simps[of v nts be t records i])
    from exec_buildInsert[OF b, of "db st"] obtain rows where
      rows: "inOrder (map (pushed v nts) ?chunk) = Inr rows"
        "sql = INSERT_INTO t (columns v) (numbering (length (columns v)) (length ?chunk)) (concat rows)"
        "exec sql (db st) = Inr (appendRows t rows (db st))"
      by blast
    from q r1 have q1: "trace st1 = trace st @ [Query sql None]" "exec sql (db st) = Inr (db st1)"
      using query_None by blast+
    with rows(3) have d1: "db st1 = appendRows t rows (db st)" by simp
    from "1.IH"[OF True refl b _ _ rec] q r1 obtain rowss where
      ih: "list_all2 (\<lambda>chunk rows. inOrder (map (pushed v nts) chunk) = Inr rows)
             (chunksFrom ?c (i + ?c) records) rowss"
          "n = inserted + length ?chunk + (length records - (i + ?c))"
          "db st' = appendRows t (concat rowss) (db st1)"
          "trace st' = trace st1
             @ map2 (\<lambda>chunk rows.
                       Query (INSERT_INTO t (columns v)
                                (numbering (length (columns v)) (length chunk)) (concat rows)) None)
                 (chunksFrom ?c (i + ?c) records) rowss"
      by auto
    have n: "n = inserted + (length records - i)"
      using ih(2) True by (auto simp: min_def)
    show ?thesis
      using ih(1,3,4) rows(1,2) q1(1) d1 n chunks
      by (intro exI[of _ "rows # rowss"]) simp
  qed
qed



lemma queries_success_trace:
  "queries be sqls st = (None, st') \<Longrightarrow> trace st' = trace st @ map (\<lambda>sql. Query sql None) sqls"
proof (induction sqls arbitrary: st)
  case Nil
  then show ?case by simp
next
  case (Cons sql rest)
  obtain r1 st1 where q: "query be sql st = (r1, st1)" by (cases "query be sql st")
  with Cons.prems have r1: "r1 = None" by (cases r1) auto
  with q Cons.prems have rec: "queries be rest st1 = (None, st')" by simp
  from q r1 have "trace st1 = trace st @ [Query sql None]" using query_None by blast
  with Cons.IH[OF rec] show ?case by simp
qed

lemma clearStatements_truthy:
  "clearStatements Part000B req t = (if truthy (truncateFirst req) then [TRUNCATE t] else [])"
  by (cases "truncateFirst req") auto

lemma clear_success_store:
  assumes "queries be (clearStatements v req t) st = (None, st')"
    and "pending (db st) = Some C"
    and "v = Part001 \<longrightarrow> t = js ''rrc_clients''"
  shows "db st' = (db st)\<lparr>pending := Some (if clears v req then C(t := []) else C)\<rparr>"
proof -
  have one: "db st1 = (db st)\<lparr>pending := Some (C(t := []))\<rparr>"
    if "query be sql st = (None, st1)" "sql = DELETE_FROM t \<or> sql = TRUNCATE t" for sql st1
    using query_None[OF that(1)] that(2) assms(2)
    by (auto simp: writeTables_def working_def)
  have same: "(db st)\<lparr>pending := Some C\<rparr> = db st"
    using assms(2) by (cases "db st") auto
  show ?thesis
  proof (cases v)
    case ServerJs
    with assms(1) one[of "DELETE_FROM t"] show ?thesis
      by (auto simp: clears_def split: prod.splits option.splits)
  next
    case Part000A
    with assms(1) one[of "DELETE_FROM t"] show ?thesis
      by (auto simp: clears_def split: prod.splits option.splits)
  next
    case Part000B
    with assms(1) one[of "TRUNCATE t"] same show ?thesis
      by (auto simp: clears_def clearStatements_truthy split: prod.splits option.splits if_splits)
  next
    case Part001
    with assms(1,3) one[of "TRUNCATE t"] show ?thesis
      by (auto simp: clears_def split: prod.splits option.splits)
  qed
qed

text \<open>The trace of a \<^verbatim>\<open>try\<close> block that commits.\<close>

lemma tryBlock_success:
  assumes "tryBlock v nts be req t st = (Inr n, st')"
  shows "\<exists>st1 st2 st3 st4 rowss.
      query be BEGIN st = (None, st1)
    \<and> queries be (clearStatements v req t) st1 = (None, st2)
    \<and> insertLoop v nts be t (elements (data req)) 0 0 st2 = (Inr n, st3)
    \<and> query be COMMIT st3 = (None, st4)
    \<and> st' = st4\<lparr>trace := trace st4 @ [Reply (Response 200 (Inserted n))]\<rparr>
    \<and> list_all2 (\<lambda>chunk rows. inOrder (map (pushed v nts) chunk) = Inr rows)
         (chunksFrom (chunkSize v) 0 (elements (data req))) rowss
    \<and> n = length (elements (data req))
    \<and> db st3 = appendRows t (concat rowss) (db st2)
    \<and> trace st' = trace st @ [Query BEGIN None]
        @ map (\<lambda>sql. Query sql None) (clearStatements v req t)
        @ map2 (\<lambda>chunk rows.
                  Query (INSERT_INTO t (columns v)
                           (numbering (length (columns v)) (length chunk)) (concat rows)) None)
            (chunksFrom (chunkSize v) 0 (elements (data req))) rowss
        @ [Query COMMIT None, Reply (Response 200 (Inserted n))]"
proof -
  obtain r1 st1 where q1: "query be BEGIN st = (r1, st1)" by (cases "query be BEGIN st")
  have r1: "r1 = None" using assms q1 by (cases r1) (auto simp: tryBlock_def)
  obtain r2 st2 where q2: "queries be (clearStatements v req t) st1 = (r2, st2)"
    by (cases "queries be (clearStatements v req t) st1")
  have r2: "r2 = None" using assms q1 r1 q2 by (cases r2) (auto simp: tryBlock_def)
  obtain r3 st3 where q3: "insertLoop v nts be t (elements (data req)) 0 0 st2 = (r3, st3)"
    by (cases "insertLoop v nts be t (elements (data req)) 0 0 st2")
  obtain r4 st4 where q4: "query be COMMIT st3 = (r4, st4)" by (cases "query be COMMIT st3")
  have r3: "r3 = Inr n" and r4: "r4 = None"
    and st': "st' = st4\<lparr>trace := trace st4 @ [Reply (Response 200 (Inserted n))]\<rparr>"
    using assms q1 r1 q2 r2 q3 q4
    by (cases r3; cases r4; auto simp: tryBlock_def)+
  from insertLoop_success[OF q3[unfolded r3]] obtain rowss where
    l: "list_all2 (\<lambda>chunk rows. inOrder (map (pushed v nts) chunk) = Inr rows)
         (chunksFrom (chunkSize v) 0 (elements (data req))) rowss"
       "n = 0 + (length (elements (data req)) - 0)"
       "db st3 = appendRows t (concat rowss) (db st2)"
       "trace st3 = trace st2
           @ map2 (\<lambda>chunk rows.
                     Query (INSERT_INTO t (columns v)
                              (numbering (length (columns v)) (length chunk)) (concat rows)) None)
               (chunksFrom (chunkSize v) 0 (elements (data req))) rowss"
    by blast
  have t1: "trace st1 = trace st @ [Query BEGIN None]"
    using query_None[OF q1[unfolded r1]] by simp
  have t2: "trace st2 = trace st1 @ map (\<lambda>sql. Query sql None) (clearStatements v req t)"
    using queries_success_trace[OF q2[unfolded r2]] .
  have t4: "trace st4 = trace st3 @ [Query COMMIT None]"
    using query_None[OF q4[unfolded r4]] by simp
  show ?thesis
    using q1 r1 q2 r2 q3 r3 q4 r4 st' l t1 t2 t4
    by (intro exI[of _ st1] exI[of _ st2] exI[of _ st3] exI[of _ st4] exI[of _ rowss]) simp
qed

text \<open>The store after a \<^verbatim>\<open>try\<close> block that commits.\<close>

lemma tryBlock_success_store:
  assumes "tryBlock v nts be req t st = (Inr n, st')"
    and "pending (db st) = None"
    and "v = Part001 \<longrightarrow> t = js ''rrc_clients''"
  shows "\<exists>rows. inOrder (map (pushed v nts) (elements (data req))) = Inr rows
    \<and> n = length rows
    \<and> pending (db st') = None
    \<and> committed (db st') =
        (committed (db st))
          (t := (if clears v req then [] else committed (db st) t) @ rows)"
proof -
  from tryBlock_success[OF assms(1)] obtain st1 st2 st3 st4 rowss where
    h: "query be BEGIN st = (None, st1)"
       "queries be (clearStatements v req t) st1 = (None, st2)"
       "query be COMMIT st3 = (None, st4)"
       "st' = st4\<lparr>trace := trace st4 @ [Reply (Response 200 (Inserted n))]\<rparr>"
       "list_all2 (\<lambda>chunk rows. inOrder (map (pushed v nts) chunk) = Inr rows)
         (chunksFrom (chunkSize v) 0 (elements (data req))) rowss"
       "n = length (elements (data req))"
       "db st3 = appendRows t (concat rowss) (db st2)"
    by blast
  let ?C = "committed (db st)"
  let ?C' = "if clears v req then ?C(t := []) else ?C"
  have rows: "inOrder (map (pushed v nts) (elements (data req))) = Inr (concat rowss)"
    using inOrder_concat[OF h(5)] concat_chunksFrom[OF chunkSize_pos, of v 0 "elements (data req)"]
    by simp
  have d1: "db st1 = (db st)\<lparr>pending := Some ?C\<rparr>"
    using query_None[OF h(1)] assms(2) by auto
  have d2: "db st2 = (db st)\<lparr>pending := Some ?C'\<rparr>"
    using clear_success_store[OF h(2) _ assms(3), of ?C] d1 by simp
  have d3: "db st3 = (db st)\<lparr>pending := Some (?C'(t := ?C' t @ concat rowss))\<rparr>"
    using h(7) d2 by (simp add: appendRows_def writeTables_def working_def)
  have d4: "db st4 = \<lparr>committed = ?C'(t := ?C' t @ concat rowss), pending = None\<rparr>"
    using query_None[OF h(3)] d3 by auto
  have len: "length (concat rowss) = length (elements (data req))"
    using inOrder_length[OF rows] by simp
  show ?thesis
    using rows d4 h(4,6) len
    by (intro exI[of _ "concat rowss"]) (auto simp: fun_eq_iff)
qed

text \<open>A request that is answered with 200.\<close>

lemma syncHandler_success:
  assumes "replies (events (syncHandler v cfg be req s)) = [Response 200 (Inserted n)]"
  obtains tt t st where
    "strictEquals (apiKey req) (envValue (API_KEY cfg))" "isArray (data req)"
    "targetTable v cfg req = Inr tt" "ToString (numberToString cfg) tt = Inr t"
    "v = Part001 \<longrightarrow> t = js ''rrc_clients''"
    "tryBlock v (numberToString cfg) be req t \<lparr>db = s, trace = [Connect None]\<rparr> = (Inr n, st)"
    "syncHandler v cfg be req s
       = \<lparr>finalStore = db st, events = trace st @ [Release], uncaught = None\<rparr>"
proof (cases v cfg be req s rule: syncHandler_cases)
  case unauthorized
  with assms show ?thesis by (simp add: invalidApiKey_def)
next
  case badPayload
  with assms show ?thesis by (simp add: invalidDataFormat_def)
next
  case (thrown e)
  with assms show ?thesis by simp
next
  case (noConnection m)
  with assms show ?thesis by simp
next
  case (success tt t n' st oks)
  with assms have n: "n' = n" by (simp add: replies_accepted)
  have p: "v = Part001 \<longrightarrow> t = js ''rrc_clients''"
    using success(4,5) by auto
  have "syncHandler v cfg be req s
       = \<lparr>finalStore = db st, events = trace st @ [Release], uncaught = None\<rparr>"
    using success by (simp add: syncHandler_def)
  with success n p that show ?thesis by blast
next
  case (rolledBack tt t e st oks tl)
  with assms show ?thesis by (simp add: replies_accepted replies_failureTail)
next
  case (rollbackFailed tt t e st oks tl m)
  with assms show ?thesis by (simp add: replies_accepted replies_failureTail)
qed



lemma tryBlock_success_pending:
  assumes "tryBlock v nts be req t st = (Inr n, st')"
  shows "pending (db st') = None"
proof -
  from tryBlock_success[OF assms] obtain st1 st2 st3 st4 where
    h: "query be BEGIN st = (None, st1)"
       "queries be (clearStatements v req t) st1 = (None, st2)"
       "insertLoop v nts be t (elements (data req)) 0 0 st2 = (Inr n, st3)"
       "query be COMMIT st3 = (None, st4)"
       "st' = st4\<lparr>trace := trace st4 @ [Reply (Response 200 (Inserted n))]\<rparr>"
    by blast
  have "pending (db st1) \<noteq> None" using query_None[OF h(1)] exec_BEGIN by blast
  then have "pending (db st2) \<noteq> None"
    using queries_in_transaction[OF h(2) clearStatements_clear] by simp
  then have "pending (db st3) \<noteq> None"
    using insertLoop_in_transaction[OF h(3)] by simp
  moreover have "exec COMMIT (db st3) = Inr (db st4)"
    using query_None[OF h(4)] by simp
  ultimately have "pending (db st4) = None"
    by (cases "pending (db st3)") (auto dest!: sym[of _ "db st4"])
  with h(5) show ?thesis by simp
qed

text \<open>
  C2 (as amended). In a variant that clears the table (\<^verbatim>\<open>src/server.js\<close>, the first
  file of \<^verbatim>\<open>part_000\<close>, \<^verbatim>\<open>part_001\<close>, and the second file of \<^verbatim>\<open>part_000\<close> when
  the request sets \<^verbatim>\<open>truncateFirst\<close>), when the same request is answered with 200
  twice in a row, the target table then holds the rows of the snapshot exactly once:
  one row per record, in order, with the values the variant binds for it.
\<close>

theorem replay_replaces_table:
  "clears v req
   \<and> replies (events (syncHandler v cfg be1 req s)) = [Response 200 (Inserted n1)]
   \<and> replies (events (syncHandler v cfg be2 req (finalStore (syncHandler v cfg be1 req s))))
       = [Response 200 (Inserted n2)] \<longrightarrow>
   (\<exists>tt t rows.
       targetTable v cfg req = Inr tt \<and> ToString (numberToString cfg) tt = Inr t
     \<and> inOrder (map (pushed v (numberToString cfg)) (elements (data req))) = Inr rows
     \<and> committed (finalStore (syncHandler v cfg be2 req (finalStore (syncHandler v cfg be1 req s)))) t
         = rows
     \<and> n1 = length rows \<and> n2 = length rows)"
proof (intro impI, elim conjE)
  let ?nts = "numberToString cfg"
  let ?out1 = "syncHandler v cfg be1 req s"
  let ?out2 = "syncHandler v cfg be2 req (finalStore ?out1)"
  assume cl: "clears v req"
    and r1: "replies (events ?out1) = [Response 200 (Inserted n1)]"
    and r2: "replies (events ?out2) = [Response 200 (Inserted n2)]"
  from r1 obtain tt1 t1 st1 where
    a: "tryBlock v ?nts be1 req t1 \<lparr>db = s, trace = [Connect None]\<rparr> = (Inr n1, st1)"
       "?out1 = \<lparr>finalStore = db st1, events = trace st1 @ [Release], uncaught = None\<rparr>"
    by (rule syncHandler_success)
  have p1: "pending (finalStore ?out1) = None"
    using tryBlock_success_pending[OF a(1)] a(2) by simp
  have n1: "n1 = length (elements (data req))"
    using tryBlock_success[OF a(1)] by blast
  from r2 obtain tt t st2 where
    b: "targetTable v cfg req = Inr tt" "ToString ?nts tt = Inr t"
       "v = Part001 \<longrightarrow> t = js ''rrc_clients''"
       "tryBlock v ?nts be2 req t \<lparr>db = finalStore ?out1, trace = [Connect None]\<rparr> = (Inr n2, st2)"
       "?out2 = \<lparr>finalStore = db st2, events = trace st2 @ [Release], uncaught = None\<rparr>"
    by (rule syncHandler_success)
  from tryBlock_success_store[OF b(4) _ b(3)] p1 cl obtain rows where
    c: "inOrder (map (pushed v ?nts) (elements (data req))) = Inr rows" "n2 = length rows"
       "committed (db st2) = (committed (finalStore ?out1))(t := [] @ rows)"
    by auto
  have "length rows = length (elements (data req))"
    using inOrder_length[OF c(1)] by simp
  then show "\<exists>tt t rows.
       targetTable v cfg req = Inr tt \<and> ToString (numberToString cfg) tt = Inr t
     \<and> inOrder (map (pushed v (numberToString cfg)) (elements (data req))) = Inr rows
     \<and> committed (finalStore ?out2) t = rows
     \<and> n1 = length rows \<and> n2 = length rows"
    using b(1,2,5) c n1 by (intro exI[of _ tt] exI[of _ t] exI[of _ rows]) simp
qed

theorem replay_replaces_table_witness:
  "committed (finalStore (syncHandler ServerJs sampleConfig acceptAll sampleRequest
      (finalStore (syncHandler ServerJs sampleConfig acceptAll sampleRequest oldStore))))
     (js ''rrc_clients'') = [acmeTrimmed]"
proof -
  have h1: "clears ServerJs sampleRequest" by code_simp
  have h2: "replies (events (syncHandler ServerJs sampleConfig acceptAll sampleRequest oldStore))
              = [Response 200 (Inserted 1)]" by code_simp
  have h3: "replies (events (syncHandler ServerJs sampleConfig acceptAll sampleRequest
              (finalStore (syncHandler ServerJs sampleConfig acceptAll sampleRequest oldStore))))
              = [Response 200 (Inserted 1)]" by code_simp
  have h4: "targetTable ServerJs sampleConfig sampleRequest = Inr (JStr (js ''rrc_clients''))"
    by code_simp
  have h5: "inOrder (map (pushed ServerJs (numberToString sampleConfig)) (elements (data sampleRequest)))
              = Inr [acmeTrimmed]" by code_simp
  from replay_replaces_table
         [of ServerJs sampleRequest sampleConfig acceptAll oldStore 1 acceptAll 1]
       h1 h2 h3 h4 h5
  show ?thesis by auto
qed

text \<open>
  The claim as it is written fails in the second file of \<^verbatim>\<open>part_000\<close>: without
  \<^verbatim>\<open>truncateFirst\<close> nothing is cleared, and the second sync adds the snapshot to the
  rows of the first.
\<close>

theorem replay_duplicates_counterexample:
  "replies (events (syncHandler Part000B sampleConfig acceptAll sampleRequest sampleStore))
     = [Response 200 (Inserted 1)]
   \<and> replies (events (syncHandler Part000B sampleConfig acceptAll sampleRequest
        (finalStore (syncHandler Part000B sampleConfig acceptAll sampleRequest sampleStore))))
     = [Response 200 (Inserted 1)]
   \<and> committed (finalStore (syncHandler Part000B sampleConfig acceptAll sampleRequest
        (finalStore (syncHandler Part000B sampleConfig acceptAll sampleRequest sampleStore))))
       (js ''rrc_clients'') = [acmeRaw, acmeRaw]"
  by code_simp



section \<open>A store that accepts every statement\<close>

lemma targetTable_scalar:
  assumes "scalar (tableName req)"
  shows "\<exists>tt t. targetTable v cfg req = Inr tt \<and> ToString (numberToString cfg) tt = Inr t"
  using assms
  by (cases v; cases "tableName req") (auto simp: isValidIdentifier_def)

lemma query_accepted:
  assumes "\<forall>st sql. rejects be st sql = None" "exec sql (db st) = Inr d"
  shows "query be sql st = (None, \<lparr>db = d, trace = trace st @ [Query sql None]\<rparr>)"
  using assms by (simp add: query_def)

lemma clear_accepted:
  assumes "\<forall>st sql. rejects be st sql = None"
  shows "\<exists>st'. queries be (clearStatements v req t) st = (None, st')"
  using assms by (cases v) (auto simp: query_def)

lemma inOrder_take_drop:
  assumes "inOrder (map f xs) = Inr ys"
  shows "inOrder (map f (take n xs)) = Inr (take n ys)
       \<and> inOrder (map f (drop n xs)) = Inr (drop n ys)"
proof -
  have "xs = take n xs @ drop n xs" by simp
  then have "inOrder (map f (take n xs) @ map f (drop n xs)) = Inr ys"
    using assms by (metis map_append)
  then obtain a b where
    ab: "inOrder (map f (take n xs)) = Inr a" "inOrder (map f (drop n xs)) = Inr b" "ys = a @ b"
    by (auto simp only: inOrder_append split: sum.splits)
  have "length a = length (take n xs)" using inOrder_length[OF ab(1)] by simp
  moreover have "length ys = length xs" using inOrder_length[OF assms] by simp
  ultimately have "a = take n ys" "b = drop n ys"
    using ab(3) by (auto simp: min_def)
  then show ?thesis using ab(1,2) by (simp only: simp_thms)
qed

text \<open>
  When the store rejects nothing and every record can be bound, the loop sends one
  insert for each chunk of rows and returns the number of records.
\<close>

lemma insertLoop_accepting:
  "\<forall>st sql. rejects be st sql = None \<Longrightarrow>
   inOrder (map (pushed v nts) records) = Inr rows \<Longrightarrow>
   insertLoop v nts be t records i inserted st =
     (Inr (inserted + (length records - i)),
      \<lparr>db = appendRows t (drop i rows) (db st),
       trace = trace st
         @ map (\<lambda>rs. Query (INSERT_INTO t (columns v) (numbering (length (columns v)) (length rs))
                              (concat rs)) None)
             (chunksFrom (chunkSize v) i rows)\<rparr>)"
proof (induction v nts be t records i inserted st rule: insertLoop.induct)
  case (1 v nts be t records i inserted st)
  note acc = "1.prems"(1)
  note bind = "1.prems"(2)
  have len: "length rows = length records" using inOrder_length[OF bind] by simp
  show ?case
  proof (cases "i < length records")
    case False
    then show ?thesis
      using len
      by (cases st) (simp add: insertLoop.simps[of v nts be t records i] chunksFrom.simps[of _ i rows])
  next
    case True
    let ?c = "chunkSize v"
    let ?chunk = "take ?c (drop i records)"
    let ?rs = "take ?c (drop i rows)"
    have rs: "inOrder (map (pushed v nts) ?chunk) = Inr ?rs"
      using inOrder_take_drop[OF bind, of i] inOrder_take_drop[of "pushed v nts" "drop i records" "drop i rows" ?c]
      by simp
    let ?sql = "INSERT_INTO t (columns v) (numbering (length (columns v)) (length ?chunk)) (concat ?rs)"
    have b: "buildInsert v nts t ?chunk = Inr ?sql"
      using rs by (simp add: buildInsert_eq)
    have lrs: "length ?rs = length ?chunk" using len by simp
    from exec_buildInsert[OF b, of "db st"] rs
    have ex: "exec ?sql (db st) = Inr (appendRows t ?rs (db st))" by auto
    let ?st1 = "\<lparr>db = appendRows t ?rs (db st), trace = trace st @ [Query ?sql None]\<rparr>"
    have q: "query be ?sql st = (None, ?st1)"
      using query_accepted[OF acc ex] .
    have ih: "insertLoop v nts be t records (i + ?c) (inserted + length ?chunk) ?st1 =
      (Inr (inserted + length ?chunk + (length records - (i + ?c))),
       \<lparr>db = appendRows t (drop (i + ?c) rows) (db ?st1),
        trace = trace ?st1
          @ map (\<lambda>rs. Query (INSERT_INTO t (columns v) (numbering (length (columns v)) (length rs))
                               (concat rs)) None)
              (chunksFrom ?c (i + ?c) rows)\<rparr>)"
      using "1.IH"[OF True refl b _ _ acc bind] q by auto
    have chunks: "chunksFrom ?c i rows = ?rs # chunksFrom ?c (i + ?c) rows"
      using True len chunkSize_pos[of v] by (simp add: chunksFrom.simps[of _ i rows])
    have cat: "?rs @ drop (i + ?c) rows = drop i rows"
      by (metis add.commute append_take_drop_id drop_drop)
    have n: "inserted + length ?chunk + (length records - (i + ?c)) = inserted + (length records - i)"
      using True by (auto simp: min_def)
    show ?thesis
      using True b q ih chunks cat n lrs
      by (simp add: insertLoop.simps[of v nts be t records i])
  qed
qed

lemma clear_accepting:
  assumes "\<forall>st sql. rejects be st sql = None"
  shows "\<exists>st'. queries be (clearStatements v req t) st = (None, st')
           \<and> trace st' = trace st @ map (\<lambda>sql. Query sql None) (clearStatements v req t)"
proof -
  from clear_accepted[OF assms] obtain st' where
    q: "queries be (clearStatements v req t) st = (None, st')" by blast
  from queries_success_trace[OF q] q show ?thesis by blast
qed

lemma tryBlock_accepting:
  assumes acc: "\<forall>st sql. rejects be st sql = None"
    and bind: "inOrder (map (pushed v nts) (elements (data req))) = Inr rows"
  shows "\<exists>st'. tryBlock v nts be req t st = (Inr (length (elements (data req))), st')
    \<and> trace st' = trace st @ [Query BEGIN None]
        @ map (\<lambda>sql. Query sql None) (clearStatements v req t)
        @ map (\<lambda>rs. Query (INSERT_INTO t (columns v) (numbering (length (columns v)) (length rs))
                             (concat rs)) None)
            (chunksFrom (chunkSize v) 0 rows)
        @ [Query COMMIT None, Reply (Response 200 (Inserted (length (elements (data req)))))]"
proof -
  obtain d1 where "exec BEGIN (db st) = Inr d1" by simp
  from query_accepted[OF acc this]
  have q1: "query be BEGIN st = (None, \<lparr>db = d1, trace = trace st @ [Query BEGIN None]\<rparr>)" .
  let ?st1 = "\<lparr>db = d1, trace = trace st @ [Query BEGIN None]\<rparr>"
  from clear_accepting[OF acc, of v req t ?st1] obtain st2 where
    q2: "queries be (clearStatements v req t) ?st1 = (None, st2)"
        "trace st2 = trace ?st1 @ map (\<lambda>sql. Query sql None) (clearStatements v req t)"
    by blast
  let ?n = "length (elements (data req))"
  let ?st3 = "\<lparr>db = appendRows t (drop 0 rows) (db st2),
       trace = trace st2
         @ map (\<lambda>rs. Query (INSERT_INTO t (columns v) (numbering (length (columns v)) (length rs))
                              (concat rs)) None)
             (chunksFrom (chunkSize v) 0 rows)\<rparr>"
  have q3: "insertLoop v nts be t (elements (data req)) 0 0 st2 = (Inr ?n, ?st3)"
    using insertLoop_accepting[OF acc bind, of t 0 0 st2] by simp
  obtain d4 where "exec COMMIT (db ?st3) = Inr d4" by simp
  from query_accepted[OF acc this]
  have q4: "query be COMMIT ?st3 = (None, \<lparr>db = d4, trace = trace ?st3 @ [Query COMMIT None]\<rparr>)" .
  show ?thesis
    using q1 q2 q3 q4 by (simp add: tryBlock_def)
qed

text \<open>
  An authorized request whose records can all be bound, against a store that accepts
  everything, is committed and answered with 200.
\<close>

lemma syncHandler_commits:
  assumes "strictEquals (apiKey req) (envValue (API_KEY cfg))"
    and "data req = JArr records"
    and "scalar (tableName req)"
    and "connectError be = None"
    and "\<forall>st sql. rejects be st sql = None"
    and "inOrder (map (pushed v (numberToString cfg)) records) = Inr rows"
  shows "\<exists>t. events (syncHandler v cfg be req s) =
      [Connect None, Query BEGIN None]
        @ map (\<lambda>sql. Query sql None) (clearStatements v req t)
        @ map (\<lambda>rs. Query (INSERT_INTO t (columns v) (numbering (length (columns v)) (length rs))
                             (concat rs)) None)
            (chunksFrom (chunkSize v) 0 rows)
        @ [Query COMMIT None, Reply (Response 200 (Inserted (length records))), Release]"
proof -
  from targetTable_scalar[OF assms(3), of v cfg] obtain tt t where
    t: "targetTable v cfg req = Inr tt" "ToString (numberToString cfg) tt = Inr t" by blast
  have bind: "inOrder (map (pushed v (numberToString cfg)) (elements (data req))) = Inr rows"
    using assms(2,6) by simp
  from tryBlock_accepting[OF assms(5) bind, of t "\<lparr>db = s, trace = [Connect None]\<rparr>"]
  obtain st' where
    tb: "tryBlock v (numberToString cfg) be req t \<lparr>db = s, trace = [Connect None]\<rparr>
           = (Inr (length (elements (data req))), st')"
        "trace st' = [Connect None] @ [Query BEGIN None]
        @ map (\<lambda>sql. Query sql None) (clearStatements v req t)
        @ map (\<lambda>rs. Query (INSERT_INTO t (columns v) (numbering (length (columns v)) (length rs))
                             (concat rs)) None)
            (chunksFrom (chunkSize v) 0 rows)
        @ [Query COMMIT None, Reply (Response 200 (Inserted (length (elements (data req)))))]"
    by auto
  show ?thesis
    using assms(1,2,4) t tb
    by (intro exI[of _ t]) (simp add: syncHandler_def)
qed

section \<open>Records that can be bound\<close>

lemma inOrder_all_Inr:
  "\<forall>x\<in>set xs. \<exists>y. f x = Inr y \<Longrightarrow> \<exists>ys. inOrder (map f xs) = Inr ys"
  by (induction xs) (auto split: sum.splits)

lemma coerce_scalar:
  assumes "scalar raw"
  shows "\<exists>r. coerce nts col raw = Inr r"
proof -
  from ToString_scalar[OF assms, of nts] obtain s where s: "ToString nts raw = Inr s" by blast
  show ?thesis
    using assms s
    by (cases raw) (auto simp: coerce_def Let_def toString_call_def simp del: ToString.simps)
qed

lemma sanitize_scalar:
  assumes "getProp row k = Inr raw" "scalar raw"
  shows "\<exists>r. sanitize nts row k = Inr r"
  using assms ToString_scalar[OF assms(2), of nts]
  by (cases raw) (auto simp: sanitize_def orElse_def toString_call_def)

lemma getProp_recordObject:
  assumes "recordObject row"
  shows "\<exists>raw. getProp row k = Inr raw \<and> scalar raw"
proof -
  from assms obtain ps where row: "row = JObj ps" "list_all (\<lambda>p. scalar (snd p)) ps"
    by (cases row) auto
  show ?thesis
  proof (cases "map_of ps k")
    case None
    with row show ?thesis by (simp add: getProp_def)
  next
    case (Some raw)
    then have "(k, raw) \<in> set ps" by (rule map_of_SomeD)
    with row(2) have "scalar raw" by (auto simp: list_all_iff)
    with row Some show ?thesis by (simp add: getProp_def)
  qed
qed

lemma pushed_scalar_fields:
  assumes "\<And>k. \<exists>raw. getProp row k = Inr raw \<and> scalar raw"
  shows "\<exists>vs. pushed v nts row = Inr vs"
proof (cases v)
  case ServerJs
  have "\<forall>k\<in>set narrowColumns. \<exists>y. sanitize nts row k = Inr y"
    using assms sanitize_scalar by blast
  from inOrder_all_Inr[OF this] ServerJs show ?thesis by simp
next
  case Part000A
  have "\<forall>col\<in>set wideColumns. \<exists>y.
      (case getProp row col of Inl e \<Rightarrow> Inl e | Inr raw \<Rightarrow> coerce nts col raw) = Inr y"
  proof
    fix col assume "col \<in> set wideColumns"
    from assms[of col] obtain raw where "getProp row col = Inr raw" "scalar raw" by blast
    then show "\<exists>y. (case getProp row col of Inl e \<Rightarrow> Inl e | Inr raw \<Rightarrow> coerce nts col raw) = Inr y"
      using coerce_scalar[of raw nts col] by simp
  qed
  from inOrder_all_Inr[OF this] Part000A show ?thesis by simp
next
  case Part000B
  have "\<forall>k\<in>set narrowColumns. \<exists>y. getProp row k = Inr y" using assms by blast
  from inOrder_all_Inr[OF this] Part000B show ?thesis by simp
next
  case Part001
  have "\<forall>k\<in>set narrowColumns. \<exists>y. getProp row k = Inr y" using assms by blast
  from inOrder_all_Inr[OF this] Part001 show ?thesis by simp
qed

lemma pushed_recordObject: "recordObject row \<Longrightarrow> \<exists>vs. pushed v nts row = Inr vs"
  using pushed_scalar_fields[of row v nts] getProp_recordObject[of row] by blast

lemma records_bound:
  "list_all recordObject records \<Longrightarrow> \<exists>rows. inOrder (map (pushed v nts) records) = Inr rows"
  using inOrder_all_Inr[of records "pushed v nts"] pushed_recordObject[of _ v nts]
  by (auto simp: list_all_iff)

lemma getProp_primitive: "primitiveElement row \<Longrightarrow> getProp row k = Inr JUndefined"
  by (cases row) (auto simp: getProp_def)

lemma pushed_primitive:
  assumes "primitiveElement row"
  shows "pushed v nts row = pushed v nts (JObj [])"
proof -
  have g: "getProp row = getProp (JObj [])"
    using getProp_primitive[OF assms] by (auto simp: getProp_def[of "JObj []"])
  have s: "sanitize nts row = sanitize nts (JObj [])"
    by (rule ext) (simp add: sanitize_def g)
  show ?thesis by (cases v) (simp_all only: pushed.simps g s)
qed

lemma pushed_empty_ServerJs:
  "pushed ServerJs nts (JObj []) = Inr [JStr [], JStr [], JStr [], JStr []]"
  by (simp add: narrowColumns_def sanitize_def getProp_def orElse_def toString_call_def trim_def)

lemma primitives_bound:
  "list_all primitiveElement records \<Longrightarrow> \<exists>rows. inOrder (map (pushed v nts) records) = Inr rows"
proof -
  assume a: "list_all primitiveElement records"
  have "\<exists>vs. pushed v nts (JObj []) = Inr vs"
    using pushed_recordObject[of "JObj []" v nts] by simp
  then have "\<forall>row\<in>set records. \<exists>vs. pushed v nts row = Inr vs"
    using a pushed_primitive[of _ v nts] by (auto simp: list_all_iff)
  from inOrder_all_Inr[OF this] show ?thesis .
qed

section \<open>The Batch Inserter\<close>

lemma insertsOf_append [simp]: "insertsOf (xs @ ys) = insertsOf xs @ insertsOf ys"
  by (induction xs rule: insertsOf.induct) auto

lemma insertsOf_clear [simp]:
  "insertsOf (map (\<lambda>sql. Query sql None) (clearStatements v req t)) = []"
  by (cases v) auto

lemma insertsOf_inserts:
  "length chunks = length rowss \<Longrightarrow>
   insertsOf (map2 (\<lambda>chunk rows. Query (INSERT_INTO t cols (f chunk) (g rows)) None) chunks rowss)
     = map2 (\<lambda>chunk rows. INSERT_INTO t cols (f chunk) (g rows)) chunks rowss"
  by (induction chunks rowss rule: list_induct2) auto

lemma concat_numbering: "concat (numbering k n) = [1..<Suc (n * k)]"
proof (induction n)
  case 0
  then show ?case by (simp add: numbering_def)
next
  case (Suc n)
  have "numbering k (Suc n) = numbering k n @ [map (\<lambda>j. n * k + j + 1) [0..<k]]"
    by (simp add: numbering_def)
  then have "concat (numbering k (Suc n)) = concat (numbering k n) @ [n * k + 1..<n * k + 1 + k]"
    by (simp only: numbering_row concat_append concat.simps append_Nil2)
  also have "\<dots> = [1..<Suc (n * k)] @ [Suc (n * k)..<Suc (n * k) + k]"
    using Suc by simp
  also have "\<dots> = [1..<Suc (n * k) + k]"
    by (rule upt_add_eq_append[symmetric]) simp
  finally show ?case by (simp add: add.commute)
qed

lemma rows_parameters:
  assumes "list_all2 (\<lambda>chunk rows. inOrder (map (pushed v nts) chunk) = Inr rows) chunks rowss"
  shows "list_all2 (\<lambda>chunk rows. length rows = length chunk
            \<and> length (concat rows) = length chunk * length (columns v)) chunks rowss"
  using assms
proof (induction chunks rowss rule: list_all2_induct)
  case Nil
  then show ?case by simp
next
  case (Cons chunk chunks rows rowss)
  from inOrder_rows_length[OF Cons.hyps(1)] have
    "length rows = length chunk" "\<forall>r\<in>set rows. length r = length (columns v)"
    by (auto simp: list_all_iff)
  then have "length (concat rows) = length chunk * length (columns v)"
    using length_concat_uniform[of rows "length (columns v)"] by simp
  with Cons \<open>length rows = length chunk\<close> show ?case by simp
qed

lemma insertsOf_chunks:
  "insertsOf (map (\<lambda>rs. Query (INSERT_INTO t cols (f rs) (g rs)) None) chunks)
     = map (\<lambda>rs. INSERT_INTO t cols (f rs) (g rs)) chunks"
  by (induction chunks) auto

lemma length_numbering: "length (numbering k n) = n"
  by (simp add: numbering_def)

lemma chunksFrom_subset:
  assumes "0 < c" "rs \<in> set (chunksFrom c i xs)"
  shows "set rs \<subseteq> set xs"
proof -
  have "set rs \<subseteq> set (concat (chunksFrom c i xs))" using assms(2) by auto
  also have "\<dots> = set (drop i xs)" by (simp only: concat_chunksFrom[OF assms(1)])
  also have "\<dots> \<subseteq> set xs" by (rule set_drop_subset)
  finally show ?thesis .
qed

text \<open>The rows, the parameters and the placeholders of the inserts of a snapshot.\<close>

lemma inserts_counts:
  fixes t cols
  assumes "0 < c" "list_all (\<lambda>r. length r = k) rows"
  defines "inserts \<equiv> map (\<lambda>rs. INSERT_INTO t cols (numbering k (length rs)) (concat rs))
                          (chunksFrom c 0 rows)"
  shows "map rowCount inserts = chunkLengths c (length rows)"
    and "map paramCount inserts = map (\<lambda>n. n * k) (chunkLengths c (length rows))"
    and "map (concat \<circ> placeholdersOf) inserts
           = map (\<lambda>n. [1..<Suc (n * k)]) (chunkLengths c (length rows))"
proof -
  have lens: "map length (chunksFrom c 0 rows) = chunkLengths c (length rows)"
    using length_chunksFrom[OF assms(1), of 0 rows] by simp
  show "map rowCount inserts = chunkLengths c (length rows)"
    using lens by (simp add: inserts_def comp_def length_numbering)
  have "length (concat rs) = length rs * k" if "rs \<in> set (chunksFrom c 0 rows)" for rs
  proof -
    have "\<forall>r\<in>set rs. length r = k"
      using chunksFrom_subset[OF assms(1) that] assms(2) by (auto simp: list_all_iff)
    then show ?thesis by (rule length_concat_uniform)
  qed
  then have "map paramCount inserts = map (\<lambda>rs. length rs * k) (chunksFrom c 0 rows)"
    by (simp add: inserts_def comp_def)
  also have "\<dots> = map (\<lambda>n. n * k) (map length (chunksFrom c 0 rows))"
    by (simp add: comp_def)
  finally show "map paramCount inserts = map (\<lambda>n. n * k) (chunkLengths c (length rows))"
    using lens by simp
  have "map (concat \<circ> placeholdersOf) inserts
          = map (\<lambda>rs. [1..<Suc (length rs * k)]) (chunksFrom c 0 rows)"
    by (simp add: inserts_def comp_def concat_numbering del: upt_Suc)
  also have "\<dots> = map (\<lambda>n. [1..<Suc (n * k)]) (map length (chunksFrom c 0 rows))"
    by (simp add: comp_def del: upt_Suc)
  finally show "map (concat \<circ> placeholdersOf) inserts
           = map (\<lambda>n. [1..<Suc (n * k)]) (chunkLengths c (length rows))"
    using lens by simp
qed

text \<open>
  C7. When the request is authorized, its table name is a scalar or absent, a connection
  is obtained, the records are objects with scalar fields and the store accepts every
  statement, the sync is answered with 200 and \<^verbatim>\<open>insertedCount\<close> is the number of
  records; the rows bound from the records were cut, in input order,
  into chunks of the chunk size (500, or 100 for the wide schema) with a shorter last
  chunk for the rest, and the handler sent exactly one insert per chunk, in order, with
  one parameter per row and column and the placeholders \<open>$1 ... $N\<close> row by row.
  And whenever a sync is answered with 200, whatever the records and the store:
  \<^verbatim>\<open>insertedCount\<close> is the number of records; the records were cut, in order, into
  chunks of the chunk size with a shorter last chunk for the rest; the handler sent
  exactly one insert per chunk, in order, whose placeholders are \<open>$1 ... $N\<close> row by
  row and whose \<open>N\<close> parameters are one per row and column. 1234 records with chunk
  size 500 give three inserts of 500, 500 and 234 rows.
\<close>

theorem batch_inserter_chunks:
  "(strictEquals (apiKey req) (envValue (API_KEY cfg)) \<and> data req = JArr records
      \<and> list_all recordObject records \<and> scalar (tableName req)
      \<and> connectError be = None \<and> (\<forall>st sql. rejects be st sql = None) \<longrightarrow>
    replies (events (syncHandler v cfg be req s)) = [Response 200 (Inserted (length records))]
    \<and> (\<exists>t rows.
         inOrder (map (pushed v (numberToString cfg)) records) = Inr rows
       \<and> concat (chunksFrom (chunkSize v) 0 rows) = rows
       \<and> insertsOf (events (syncHandler v cfg be req s))
           = map (\<lambda>rs. INSERT_INTO t (columns v) (numbering (length (columns v)) (length rs))
                         (concat rs))
               (chunksFrom (chunkSize v) 0 rows))
    \<and> map rowCount (insertsOf (events (syncHandler v cfg be req s)))
        = chunkLengths (chunkSize v) (length records)
    \<and> map paramCount (insertsOf (events (syncHandler v cfg be req s)))
        = map (\<lambda>n. n * length (columns v)) (chunkLengths (chunkSize v) (length records))
    \<and> map (concat \<circ> placeholdersOf) (insertsOf (events (syncHandler v cfg be req s)))
        = map (\<lambda>n. [1..<Suc (n * length (columns v))])
            (chunkLengths (chunkSize v) (length records)))
 \<and> (replies (events (syncHandler v cfg be req s)) = [Response 200 (Inserted n)] \<longrightarrow>
   n = length (elements (data req))
   \<and> chunkSize v = (if v = Part000A then 100 else 500)
   \<and> concat (chunksFrom (chunkSize v) 0 (elements (data req))) = elements (data req)
   \<and> map length (chunksFrom (chunkSize v) 0 (elements (data req)))
       = chunkLengths (chunkSize v) (length (elements (data req)))
   \<and> (chunkSize v = 500 \<and> length (elements (data req)) = 1234 \<longrightarrow>
        map length (chunksFrom (chunkSize v) 0 (elements (data req))) = [500, 500, 234])
   \<and> (\<exists>t rowss.
        list_all2 (\<lambda>chunk rows.
            inOrder (map (pushed v (numberToString cfg)) chunk) = Inr rows
          \<and> length rows = length chunk
          \<and> length (concat rows) = length chunk * length (columns v)
          \<and> concat (numbering (length (columns v)) (length chunk))
              = [1..<Suc (length chunk * length (columns v))])
          (chunksFrom (chunkSize v) 0 (elements (data req))) rowss
      \<and> insertsOf (events (syncHandler v cfg be req s))
          = map2 (\<lambda>chunk rows.
                    INSERT_INTO t (columns v) (numbering (length (columns v)) (length chunk))
                      (concat rows))
              (chunksFrom (chunkSize v) 0 (elements (data req))) rowss))"
proof (rule conjI)
  let ?nts = "numberToString cfg"
  let ?out = "syncHandler v cfg be req s"
  let ?k = "length (columns v)"
  let ?c = "chunkSize v"
  show "strictEquals (apiKey req) (envValue (API_KEY cfg)) \<and> data req = JArr records
      \<and> list_all recordObject records \<and> scalar (tableName req)
      \<and> connectError be = None \<and> (\<forall>st sql. rejects be st sql = None) \<longrightarrow>
    replies (events ?out) = [Response 200 (Inserted (length records))]
    \<and> (\<exists>t rows.
         inOrder (map (pushed v ?nts) records) = Inr rows
       \<and> concat (chunksFrom ?c 0 rows) = rows
       \<and> insertsOf (events ?out)
           = map (\<lambda>rs. INSERT_INTO t (columns v) (numbering ?k (length rs)) (concat rs))
               (chunksFrom ?c 0 rows))
    \<and> map rowCount (insertsOf (events ?out)) = chunkLengths ?c (length records)
    \<and> map paramCount (insertsOf (events ?out))
        = map (\<lambda>n. n * ?k) (chunkLengths ?c (length records))
    \<and> map (concat \<circ> placeholdersOf) (insertsOf (events ?out))
        = map (\<lambda>n. [1..<Suc (n * ?k)]) (chunkLengths ?c (length records))"
  proof (intro impI, elim conjE)
    assume auth: "strictEquals (apiKey req) (envValue (API_KEY cfg))"
      and arr: "data req = JArr records"
      and recs: "list_all recordObject records"
      and tn: "scalar (tableName req)"
      and conn: "connectError be = None"
      and acc: "\<forall>st sql. rejects be st sql = None"
    from records_bound[OF recs, of v ?nts] obtain rows where
      rows: "inOrder (map (pushed v ?nts) records) = Inr rows" by blast
    from syncHandler_commits[OF auth arr tn conn acc rows, of s] obtain t where
      ev: "events ?out =
        [Connect None, Query BEGIN None]
          @ map (\<lambda>sql. Query sql None) (clearStatements v req t)
          @ map (\<lambda>rs. Query (INSERT_INTO t (columns v) (numbering ?k (length rs)) (concat rs)) None)
              (chunksFrom ?c 0 rows)
          @ [Query COMMIT None, Reply (Response 200 (Inserted (length records))), Release]"
      by blast
    have rep: "replies (events ?out) = [Response 200 (Inserted (length records))]"
      by (simp add: ev replies_accepted list_all_iff)
    have ins: "insertsOf (events ?out)
        = map (\<lambda>rs. INSERT_INTO t (columns v) (numbering ?k (length rs)) (concat rs))
            (chunksFrom ?c 0 rows)"
      by (simp add: ev insertsOf_chunks)
    have cat: "concat (chunksFrom ?c 0 rows) = rows"
      using concat_chunksFrom[OF chunkSize_pos, of v 0 rows] by simp
    from inOrder_rows_length[OF rows] have
      len: "length rows = length records" and uni: "list_all (\<lambda>r. length r = ?k) rows"
      by simp_all
    note counts = inserts_counts[OF chunkSize_pos[of v] uni, where t = t and cols = "columns v",
                           folded ins, unfolded len]
    show "replies (events ?out) = [Response 200 (Inserted (length records))]
    \<and> (\<exists>t rows.
         inOrder (map (pushed v ?nts) records) = Inr rows
       \<and> concat (chunksFrom ?c 0 rows) = rows
       \<and> insertsOf (events ?out)
           = map (\<lambda>rs. INSERT_INTO t (columns v) (numbering ?k (length rs)) (concat rs))
               (chunksFrom ?c 0 rows))
    \<and> map rowCount (insertsOf (events ?out)) = chunkLengths ?c (length records)
    \<and> map paramCount (insertsOf (events ?out))
        = map (\<lambda>n. n * ?k) (chunkLengths ?c (length records))
    \<and> map (concat \<circ> placeholdersOf) (insertsOf (events ?out))
        = map (\<lambda>n. [1..<Suc (n * ?k)]) (chunkLengths ?c (length records))"
      using rep rows cat ins counts by blast
  qed
next
  let ?nts = "numberToString cfg"
  let ?records = "elements (data req)"
  let ?chunks = "chunksFrom (chunkSize v) 0 ?records"
  let ?out = "syncHandler v cfg be req s"
  show "replies (events ?out) = [Response 200 (Inserted n)] \<longrightarrow>
   n = length ?records
   \<and> chunkSize v = (if v = Part000A then 100 else 500)
   \<and> concat ?chunks = ?records
   \<and> map length ?chunks = chunkLengths (chunkSize v) (length ?records)
   \<and> (chunkSize v = 500 \<and> length ?records = 1234 \<longrightarrow> map length ?chunks = [500, 500, 234])
   \<and> (\<exists>t rowss.
        list_all2 (\<lambda>chunk rows.
            inOrder (map (pushed v ?nts) chunk) = Inr rows
          \<and> length rows = length chunk
          \<and> length (concat rows) = length chunk * length (columns v)
          \<and> concat (numbering (length (columns v)) (length chunk))
              = [1..<Suc (length chunk * length (columns v))]) ?chunks rowss
      \<and> insertsOf (events ?out)
          = map2 (\<lambda>chunk rows.
                    INSERT_INTO t (columns v) (numbering (length (columns v)) (length chunk))
                      (concat rows)) ?chunks rowss)"
  proof
  assume ok: "replies (events ?out) = [Response 200 (Inserted n)]"
  from ok obtain tt t st where
    a: "tryBlock v ?nts be req t \<lparr>db = s, trace = [Connect None]\<rparr> = (Inr n, st)"
       "?out = \<lparr>finalStore = db st, events = trace st @ [Release], uncaught = None\<rparr>"
    by (rule syncHandler_success)
  from tryBlock_success[OF a(1)] obtain rowss where
    b: "list_all2 (\<lambda>chunk rows. inOrder (map (pushed v ?nts) chunk) = Inr rows) ?chunks rowss"
       "n = length ?records"
       "trace st = [Connect None] @ [Query BEGIN None]
          @ map (\<lambda>sql. Query sql None) (clearStatements v req t)
          @ map2 (\<lambda>chunk rows.
                    Query (INSERT_INTO t (columns v)
                             (numbering (length (columns v)) (length chunk)) (concat rows)) None)
              ?chunks rowss
          @ [Query COMMIT None, Reply (Response 200 (Inserted n))]"
    by auto
  have len: "length ?chunks = length rowss" using b(1) by (rule list_all2_lengthD)
  have ins: "insertsOf (events ?out)
      = map2 (\<lambda>chunk rows.
                INSERT_INTO t (columns v) (numbering (length (columns v)) (length chunk))
                  (concat rows)) ?chunks rowss"
    using a(2) b(3) insertsOf_inserts[OF len, of t "columns v"
        "\<lambda>chunk. numbering (length (columns v)) (length chunk)" concat]
    by simp
  have cat: "concat ?chunks = ?records"
    using concat_chunksFrom[OF chunkSize_pos, of v 0 ?records] by simp
  have lens: "map length ?chunks = chunkLengths (chunkSize v) (length ?records)"
    using length_chunksFrom[OF chunkSize_pos, of v 0 ?records] by simp
  have ex: "chunkLengths 500 1234 = [500, 500, 234]"
    by code_simp
  have all: "list_all2 (\<lambda>chunk rows.
            inOrder (map (pushed v ?nts) chunk) = Inr rows
          \<and> length rows = length chunk
          \<and> length (concat rows) = length chunk * length (columns v)
          \<and> concat (numbering (length (columns v)) (length chunk))
              = [1..<Suc (length chunk * length (columns v))]) ?chunks rowss"
    using b(1) rows_parameters[OF b(1)]
    by (simp add: list_all2_conv_all_nth concat_numbering)
  have cs: "chunkSize v = (if v = Part000A then 100 else 500)"
    by (cases v) simp_all
  show "n = length ?records
   \<and> chunkSize v = (if v = Part000A then 100 else 500)
   \<and> concat ?chunks = ?records
   \<and> map length ?chunks = chunkLengths (chunkSize v) (length ?records)
   \<and> (chunkSize v = 500 \<and> length ?records = 1234 \<longrightarrow> map length ?chunks = [500, 500, 234])
   \<and> (\<exists>t rowss.
        list_all2 (\<lambda>chunk rows.
            inOrder (map (pushed v ?nts) chunk) = Inr rows
          \<and> length rows = length chunk
          \<and> length (concat rows) = length chunk * length (columns v)
          \<and> concat (numbering (length (columns v)) (length chunk))
              = [1..<Suc (length chunk * length (columns v))]) ?chunks rowss
      \<and> insertsOf (events ?out)
          = map2 (\<lambda>chunk rows.
                    INSERT_INTO t (columns v) (numbering (length (columns v)) (length chunk))
                      (concat rows)) ?chunks rowss)"
    using b(2) cs cat lens ex all ins by (intro conjI exI[of _ t] exI[of _ rowss]) auto
  qed
qed

theorem batch_inserter_chunks_witness:
  "replies (events (syncHandler ServerJs sampleConfig acceptAll manyRecords sampleStore))
     = [Response 200 (Inserted 1234)]
   \<and> map rowCount (insertsOf (events (syncHandler ServerJs sampleConfig acceptAll manyRecords sampleStore)))
     = [500, 500, 234]
   \<and> map paramCount (insertsOf (events (syncHandler ServerJs sampleConfig acceptAll manyRecords sampleStore)))
     = [2000, 2000, 936]
   \<and> map length (chunksFrom (chunkSize ServerJs) 0 (elements (data manyRecords))) = [500, 500, 234]
   \<and> replies (events (syncHandler Part000A sampleConfig acceptAll wideRecords sampleStore))
     = [Response 200 (Inserted 250)]
   \<and> map rowCount (insertsOf (events (syncHandler Part000A sampleConfig acceptAll wideRecords sampleStore)))
     = [100, 100, 50]
   \<and> map paramCount (insertsOf (events (syncHandler Part000A sampleConfig acceptAll wideRecords sampleStore)))
     = [2000, 2000, 1000]"
proof -
  have acme: "recordObject acme" by code_simp
  have acc: "\<forall>st sql. rejects acceptAll st sql = None"
    by (simp add: acceptAll_def acceptNothing_def)
  have conn: "connectError acceptAll = None" by (simp add: acceptAll_def)
  have n1: "strictEquals (apiKey manyRecords) (envValue (API_KEY sampleConfig))"
    by (simp add: manyRecords_def sampleRequest_def sampleConfig_def envValue_def)
  have n2: "data manyRecords = JArr (replicate 1234 acme)" by (simp add: manyRecords_def)
  have n3: "list_all recordObject (replicate 1234 acme)" using acme by (simp add: list_all_iff)
  have n4: "scalar (tableName manyRecords)" by (simp add: manyRecords_def sampleRequest_def)
  have w1: "strictEquals (apiKey wideRecords) (envValue (API_KEY sampleConfig))"
    by (simp add: wideRecords_def sampleRequest_def sampleConfig_def envValue_def)
  have w2: "data wideRecords = JArr (replicate 250 acme)" by (simp add: wideRecords_def)
  have w3: "list_all recordObject (replicate 250 acme)" using acme by (simp add: list_all_iff)
  have w4: "scalar (tableName wideRecords)" by (simp add: wideRecords_def sampleRequest_def)
  have c1: "chunkLengths 500 1234 = [500, 500, 234]" by code_simp
  have c2: "chunkLengths 100 250 = [100, 100, 50]" by code_simp
  note narrow = batch_inserter_chunks
         [of manyRecords sampleConfig "replicate 1234 acme" acceptAll ServerJs sampleStore 1234]
  note wide = batch_inserter_chunks
         [of wideRecords sampleConfig "replicate 250 acme" acceptAll Part000A sampleStore 250]
  have hn: "strictEquals (apiKey manyRecords) (envValue (API_KEY sampleConfig))
      \<and> data manyRecords = JArr (replicate 1234 acme)
      \<and> list_all recordObject (replicate 1234 acme) \<and> scalar (tableName manyRecords)
      \<and> connectError acceptAll = None \<and> (\<forall>st sql. rejects acceptAll st sql = None)"
    using n1 n2 n3 n4 conn acc by (intro conjI)
  have hw: "strictEquals (apiKey wideRecords) (envValue (API_KEY sampleConfig))
      \<and> data wideRecords = JArr (replicate 250 acme)
      \<and> list_all recordObject (replicate 250 acme) \<and> scalar (tableName wideRecords)
      \<and> connectError acceptAll = None \<and> (\<forall>st sql. rejects acceptAll st sql = None)"
    using w1 w2 w3 w4 conn acc by (intro conjI)
  from narrow[THEN conjunct1, THEN mp, OF hn]
  have a: "replies (events (syncHandler ServerJs sampleConfig acceptAll manyRecords sampleStore))
             = [Response 200 (Inserted 1234)]"
    "map rowCount (insertsOf (events (syncHandler ServerJs sampleConfig acceptAll manyRecords sampleStore)))
       = [500, 500, 234]"
    "map paramCount (insertsOf (events (syncHandler ServerJs sampleConfig acceptAll manyRecords sampleStore)))
       = [2000, 2000, 936]"
    by (simp_all add: c1 length_narrowColumns del: upt_Suc)
  from narrow[THEN conjunct2, THEN mp, OF a(1)]
  have b: "map length (chunksFrom (chunkSize ServerJs) 0 (elements (data manyRecords))) = [500, 500, 234]"
    by (simp add: n2 c1 del: upt_Suc)
  from wide[THEN conjunct1, THEN mp, OF hw]
  have c: "replies (events (syncHandler Part000A sampleConfig acceptAll wideRecords sampleStore))
             = [Response 200 (Inserted 250)]"
    "map rowCount (insertsOf (events (syncHandler Part000A sampleConfig acceptAll wideRecords sampleStore)))
       = [100, 100, 50]"
    "map paramCount (insertsOf (events (syncHandler Part000A sampleConfig acceptAll wideRecords sampleStore)))
       = [2000, 2000, 1000]"
    by (simp_all add: c2 length_wideColumns del: upt_Suc)
  from a b c show ?thesis by simp
qed

section \<open>Elements that are not records\<close>

lemma pushed_null: "pushed v nts JNull = Inl (TypeError nullMessage)"
  by (cases v)
     (simp_all add: narrowColumns_def wideColumns_def sanitize_def getProp_def nullMessage_def)

lemma inOrder_Inr_all:
  "inOrder (map f xs) = Inr ys \<Longrightarrow> x \<in> set xs \<Longrightarrow> \<exists>y. f x = Inr y"
  by (induction xs arbitrary: ys) (auto split: sum.splits)

lemma null_never_commits:
  assumes "JNull \<in> set (elements (data req))"
  shows "tryBlock v nts be req t st \<noteq> (Inr n, st')"
proof
  assume "tryBlock v nts be req t st = (Inr n, st')"
  from tryBlock_success[OF this] obtain rowss where
    "list_all2 (\<lambda>chunk rows. inOrder (map (pushed v nts) chunk) = Inr rows)
       (chunksFrom (chunkSize v) 0 (elements (data req))) rowss"
    by blast
  from inOrder_concat[OF this]
  have "inOrder (map (pushed v nts) (elements (data req))) = Inr (concat rowss)"
    using concat_chunksFrom[OF chunkSize_pos, of v 0 "elements (data req)"] by simp
  from inOrder_Inr_all[OF this assms] show False by (simp add: pushed_null)
qed

text \<open>
  When the store rejects nothing, the exception that leaves the loop is the first one
  that binding the records in order throws.
\<close>

lemma insertLoop_first_error:
  "\<forall>st sql. rejects be st sql = None \<Longrightarrow>
   inOrder (map (pushed v nts) (drop i records)) = Inl e \<Longrightarrow>
     \<exists>st'. insertLoop v nts be t records i inserted st = (Inl e, st')"
proof (induction v nts be t records i inserted st rule: insertLoop.induct)
  case (1 v nts be t records i inserted st)
  note acc' = "1.prems"(1)
  note err = "1.prems"(2)
  have lt: "i < length records"
    using err by (cases "i < length records") auto
  let ?c = "chunkSize v"
  let ?chunk = "take ?c (drop i records)"
  have "drop i records = ?chunk @ drop ?c (drop i records)"
    by (rule append_take_drop_id[symmetric])
  then have "map (pushed v nts) (drop i records)
      = map (pushed v nts) ?chunk @ map (pushed v nts) (drop (i + ?c) records)"
    by (metis add.commute drop_drop map_append)
  then have all: "inOrder (map (pushed v nts) (drop i records)) =
      (case inOrder (map (pushed v nts) ?chunk) of
         Inl e \<Rightarrow> Inl e
       | Inr a \<Rightarrow>
           (case inOrder (map (pushed v nts) (drop (i + ?c) records)) of
              Inl e \<Rightarrow> Inl e
            | Inr b \<Rightarrow> Inr (a @ b)))"
    by (simp only: inOrder_append)
  show ?case
  proof (cases "inOrder (map (pushed v nts) ?chunk)")
    case (Inl e')
    with err all have "e' = e" by simp
    with Inl have "buildInsert v nts t ?chunk = Inl e" by (simp add: buildInsert_eq)
    with lt show ?thesis by (simp add: insertLoop.simps[of v nts be t records i])
  next
    case (Inr rows)
    with err all have rest: "inOrder (map (pushed v nts) (drop (i + ?c) records)) = Inl e"
      by (cases "inOrder (map (pushed v nts) (drop (i + ?c) records))") simp_all
    obtain sql where b: "buildInsert v nts t ?chunk = Inr sql"
      using Inr by (simp add: buildInsert_eq)
    from exec_buildInsert[OF b, of "db st"] have "\<exists>d. exec sql (db st) = Inr d" by blast
    then obtain d where "exec sql (db st) = Inr d" by blast
    from query_accepted[OF acc' this]
    have q: "query be sql st = (None, \<lparr>db = d, trace = trace st @ [Query sql None]\<rparr>)" .
    from "1.IH"[OF lt refl b _ _ acc' rest] q
    obtain st' where
      "insertLoop v nts be t records (i + ?c) (inserted + length ?chunk)
         \<lparr>db = d, trace = trace st @ [Query sql None]\<rparr> = (Inl e, st')"
      by auto
    with lt b q show ?thesis by (simp add: insertLoop.simps[of v nts be t records i])
  qed
qed

lemma tryBlock_first_error:
  assumes "\<forall>st sql. rejects be st sql = None"
    and "inOrder (map (pushed v nts) (elements (data req))) = Inl e"
  shows "\<exists>st'. tryBlock v nts be req t st = (Inl e, st')"
proof -
  obtain st1 where q1: "query be BEGIN st = (None, st1)"
    using assms(1) by (auto simp: query_def)
  obtain st2 where q2: "queries be (clearStatements v req t) st1 = (None, st2)"
    using clear_accepted[OF assms(1)] by blast
  obtain st3 where q3: "insertLoop v nts be t (elements (data req)) 0 0 st2 = (Inl e, st3)"
    using insertLoop_first_error[OF assms(1), of v nts 0 "elements (data req)" e t 0 st2] assms(2)
    by auto
  show ?thesis using q1 q2 q3 by (simp add: tryBlock_def)
qed


lemma inOrder_first_null:
  assumes "inOrder (map (pushed v nts) pre) = Inr rows"
  shows "inOrder (map (pushed v nts) (pre @ JNull # post)) = Inl (TypeError nullMessage)"
  using assms by (simp add: inOrder_append pushed_null)

text \<open>
  C10 (as amended). The elements of \<^verbatim>\<open>data\<close> are never validated. If the array
  holds a \<^verbatim>\<open>null\<close> element, the request is authorized, the table name is a scalar or
  absent, a connection is obtained and the \<^verbatim>\<open>ROLLBACK\<close> that the \<^verbatim>\<open>catch\<close> block
  sends is not rejected, then the transaction cannot commit: the handler rolls back and
  answers 500 (never 400 and never 200), with the committed tables as they were. When
  moreover the store rejects no statement and the records before the first \<^verbatim>\<open>null\<close>
  can be bound, the message is that of the TypeError thrown by reading \<^verbatim>\<open>code\<close> of
  \<^verbatim>\<open>null\<close>. An element that is a number, a string or a boolean throws nothing: it is
  bound like the empty object (by \<^verbatim>\<open>src/server.js\<close> to four empty strings), and an
  array of such elements, sent by an authorized request (table name a scalar or absent,
  connection obtained) to a store that accepts every statement, is inserted and answered
  with 200 and the number of elements as \<^verbatim>\<open>insertedCount\<close>.
\<close>

theorem null_element_rolls_back:
  "(strictEquals (apiKey req) (envValue (API_KEY cfg)) \<and> data req = JArr records
     \<and> JNull \<in> set records \<and> scalar (tableName req) \<and> connectError be = None
     \<and> (\<forall>m. Query ROLLBACK (Some m) \<notin> set (events (syncHandler v cfg be req s))) \<longrightarrow>
   (\<exists>msg. replies (events (syncHandler v cfg be req s)) = [Response 500 (Failed msg)])
   \<and> Query ROLLBACK None \<in> set (events (syncHandler v cfg be req s))
   \<and> committed (finalStore (syncHandler v cfg be req s)) = committed s
   \<and> uncaught (syncHandler v cfg be req s) = None
   \<and> ((\<forall>st sql. rejects be st sql = None)
        \<and> (\<exists>pre post rows. records = pre @ JNull # post
              \<and> inOrder (map (pushed v (numberToString cfg)) pre) = Inr rows) \<longrightarrow>
        replies (events (syncHandler v cfg be req s)) = [Response 500 (Failed nullMessage)]))
 \<and> (primitiveElement row \<longrightarrow>
      pushed v (numberToString cfg) row = pushed v (numberToString cfg) (JObj [])
    \<and> (\<exists>vs. pushed v (numberToString cfg) row = Inr vs)
    \<and> pushed ServerJs (numberToString cfg) row = Inr [JStr [], JStr [], JStr [], JStr []])
 \<and> (strictEquals (apiKey req) (envValue (API_KEY cfg)) \<and> data req = JArr records
     \<and> list_all primitiveElement records \<and> scalar (tableName req) \<and> connectError be = None
     \<and> (\<forall>st sql. rejects be st sql = None) \<longrightarrow>
   replies (events (syncHandler v cfg be req s)) = [Response 200 (Inserted (length records))]
   \<and> uncaught (syncHandler v cfg be req s) = None)"
proof (intro conjI)
  let ?out = "syncHandler v cfg be req s"
  let ?nts = "numberToString cfg"
  show "strictEquals (apiKey req) (envValue (API_KEY cfg)) \<and> data req = JArr records
     \<and> JNull \<in> set records \<and> scalar (tableName req) \<and> connectError be = None
     \<and> (\<forall>m. Query ROLLBACK (Some m) \<notin> set (events ?out)) \<longrightarrow>
   (\<exists>msg. replies (events ?out) = [Response 500 (Failed msg)])
   \<and> Query ROLLBACK None \<in> set (events ?out)
   \<and> committed (finalStore ?out) = committed s
   \<and> uncaught ?out = None
   \<and> ((\<forall>st sql. rejects be st sql = None)
        \<and> (\<exists>pre post rows. records = pre @ JNull # post
              \<and> inOrder (map (pushed v ?nts) pre) = Inr rows) \<longrightarrow>
        replies (events ?out) = [Response 500 (Failed nullMessage)])"
  proof (intro impI, elim conjE)
    assume auth: "strictEquals (apiKey req) (envValue (API_KEY cfg))"
      and arr: "data req = JArr records"
      and null: "JNull \<in> set records"
      and tn: "scalar (tableName req)"
      and conn: "connectError be = None"
      and rb: "\<forall>m. Query ROLLBACK (Some m) \<notin> set (events ?out)"
    have null': "JNull \<in> set (elements (data req))" using arr null by simp
    show "(\<exists>msg. replies (events ?out) = [Response 500 (Failed msg)])
     \<and> Query ROLLBACK None \<in> set (events ?out)
     \<and> committed (finalStore ?out) = committed s
     \<and> uncaught ?out = None
     \<and> ((\<forall>st sql. rejects be st sql = None)
          \<and> (\<exists>pre post rows. records = pre @ JNull # post
                \<and> inOrder (map (pushed v ?nts) pre) = Inr rows) \<longrightarrow>
          replies (events ?out) = [Response 500 (Failed nullMessage)])"
    proof (cases v cfg be req s rule: syncHandler_cases)
      case unauthorized
      with auth show ?thesis by simp
    next
      case badPayload
      with arr show ?thesis by simp
    next
      case (thrown e)
      with targetTable_scalar[OF tn, of v cfg] show ?thesis by auto
    next
      case (noConnection m)
      with conn show ?thesis by simp
    next
      case (success tt t n st oks)
      with null_never_commits[OF null'] show ?thesis by blast
    next
      case (rolledBack tt t e st oks evs)
      have c: "committed (db st) = committed s"
        using tryBlock_failed_committed[OF rolledBack(6)] by simp
      have r: "replies (events ?out) = [Response 500 (Failed (message e))]"
        using rolledBack(7,8,10) by (simp add: replies_accepted replies_failureTail)
      have m: "message e = nullMessage"
        if acc: "\<forall>st sql. rejects be st sql = None"
          and pre: "records = pre @ JNull # post" "inOrder (map (pushed v ?nts) pre) = Inr rows"
        for pre post rows
      proof -
        have "inOrder (map (pushed v ?nts) (elements (data req))) = Inl (TypeError nullMessage)"
          using inOrder_first_null[OF pre(2)] pre(1) arr by simp
        from tryBlock_first_error[OF acc this, of t "\<lparr>db = s, trace = [Connect None]\<rparr>"] rolledBack(6)
        show ?thesis by auto
      qed
      show ?thesis
        using c r m rolledBack(10) by auto
    next
      case (rollbackFailed tt t e st oks evs m)
      then have "Query ROLLBACK (Some m) \<in> set (events ?out)" by simp
      with rb show ?thesis by blast
    qed
  qed
next
  show "primitiveElement row \<longrightarrow>
      pushed v (numberToString cfg) row = pushed v (numberToString cfg) (JObj [])
    \<and> (\<exists>vs. pushed v (numberToString cfg) row = Inr vs)
    \<and> pushed ServerJs (numberToString cfg) row = Inr [JStr [], JStr [], JStr [], JStr []]"
  proof
    assume p: "primitiveElement row"
    have "\<exists>vs. pushed v (numberToString cfg) (JObj []) = Inr vs"
      using pushed_recordObject[of "JObj []" v "numberToString cfg"] by simp
    then show "pushed v (numberToString cfg) row = pushed v (numberToString cfg) (JObj [])
      \<and> (\<exists>vs. pushed v (numberToString cfg) row = Inr vs)
      \<and> pushed ServerJs (numberToString cfg) row = Inr [JStr [], JStr [], JStr [], JStr []]"
      using pushed_primitive[OF p, of v "numberToString cfg"]
        pushed_primitive[OF p, of ServerJs "numberToString cfg"]
        pushed_empty_ServerJs[of "numberToString cfg"]
      by (simp only: simp_thms)
  qed
next
  show "strictEquals (apiKey req) (envValue (API_KEY cfg)) \<and> data req = JArr records
     \<and> list_all primitiveElement records \<and> scalar (tableName req) \<and> connectError be = None
     \<and> (\<forall>st sql. rejects be st sql = None) \<longrightarrow>
   replies (events (syncHandler v cfg be req s)) = [Response 200 (Inserted (length records))]
   \<and> uncaught (syncHandler v cfg be req s) = None"
  proof (intro impI, elim conjE)
    assume auth: "strictEquals (apiKey req) (envValue (API_KEY cfg))"
      and arr: "data req = JArr records"
      and prims: "list_all primitiveElement records"
      and tn: "scalar (tableName req)"
      and conn: "connectError be = None"
      and acc: "\<forall>st sql. rejects be st sql = None"
    from primitives_bound[OF prims, of v "numberToString cfg"] obtain rows where
      rows: "inOrder (map (pushed v (numberToString cfg)) records) = Inr rows" by blast
    from syncHandler_commits[OF auth arr tn conn acc rows, of s] obtain t where
      ev: "events (syncHandler v cfg be req s) =
        [Connect None, Query BEGIN None]
          @ map (\<lambda>sql. Query sql None) (clearStatements v req t)
          @ map (\<lambda>rs. Query (INSERT_INTO t (columns v) (numbering (length (columns v)) (length rs))
                               (concat rs)) None)
              (chunksFrom (chunkSize v) 0 rows)
          @ [Query COMMIT None, Reply (Response 200 (Inserted (length records))), Release]"
      by blast
    have rep: "replies (events (syncHandler v cfg be req s))
                 = [Response 200 (Inserted (length records))]"
      by (simp add: ev replies_accepted list_all_iff)
    have "uncaught (syncHandler v cfg be req s) = None"
    proof (cases v cfg be req s rule: syncHandler_cases)
      case (thrown e)
      with rep show ?thesis by simp
    next
      case (noConnection m)
      with rep show ?thesis by simp
    next
      case (rollbackFailed tt t e st oks evs m)
      with rep show ?thesis by (simp add: replies_accepted replies_failureTail)
    qed simp_all
    with rep show "replies (events (syncHandler v cfg be req s))
                     = [Response 200 (Inserted (length records))]
                   \<and> uncaught (syncHandler v cfg be req s) = None" by simp
  qed
qed

theorem null_element_rolls_back_witness:
  "replies (events (syncHandler ServerJs sampleConfig acceptAll nullElementRequest oldStore))
     = [Response 500 (Failed nullMessage)]
   \<and> committed (finalStore (syncHandler ServerJs sampleConfig acceptAll nullElementRequest oldStore))
       = committed oldStore
   \<and> pushed ServerJs (numberToString sampleConfig) (JBool True)
       = Inr [JStr [], JStr [], JStr [], JStr []]
   \<and> replies (events (syncHandler ServerJs sampleConfig acceptAll primitivesRequest oldStore))
       = [Response 200 (Inserted 3)]"
proof -
  have h1: "strictEquals (apiKey nullElementRequest) (envValue (API_KEY sampleConfig))"
    by code_simp
  have h2: "data nullElementRequest = JArr [acme, JNull]"
    by (simp add: nullElementRequest_def)
  have h3: "scalar (tableName nullElementRequest)" by code_simp
  have h4: "connectError acceptAll = None" by (simp add: acceptAll_def)
  have h5: "\<forall>st sql. rejects acceptAll st sql = None"
    by (simp add: acceptAll_def acceptNothing_def)
  have h6: "inOrder (map (pushed ServerJs (numberToString sampleConfig)) [acme]) = Inr [acmeTrimmed]"
    by code_simp
  have h7: "\<exists>pre post rows. [acme, JNull] = pre @ JNull # post
              \<and> inOrder (map (pushed ServerJs (numberToString sampleConfig)) pre) = Inr rows"
    using h6 by (intro exI[of _ "[acme]"] exI[of _ "[]"] exI[of _ "[acmeTrimmed]"]) simp
  have h8: "\<forall>m. Query ROLLBACK (Some m)
              \<notin> set (events (syncHandler ServerJs sampleConfig acceptAll nullElementRequest oldStore))"
  proof -
    have "events (syncHandler ServerJs sampleConfig acceptAll nullElementRequest oldStore) =
       [Connect None, Query BEGIN None, Query (DELETE_FROM (js ''rrc_clients'')) None,
        Query ROLLBACK None, Reply (Response 500 (Failed nullMessage)), Release]"
      by code_simp
    then show ?thesis by simp
  qed
  have p1: "strictEquals (apiKey primitivesRequest) (envValue (API_KEY sampleConfig))"
    by code_simp
  have p2: "data primitivesRequest = JArr [JStr (js ''abc''), JBool True, JNum (Finite 5)]"
    by (simp add: primitivesRequest_def)
  have p3: "list_all primitiveElement [JStr (js ''abc''), JBool True, JNum (Finite 5)]" by simp
  have p4: "scalar (tableName primitivesRequest)" by code_simp
  have hn: "strictEquals (apiKey nullElementRequest) (envValue (API_KEY sampleConfig))
     \<and> data nullElementRequest = JArr [acme, JNull]
     \<and> JNull \<in> set [acme, JNull] \<and> scalar (tableName nullElementRequest)
     \<and> connectError acceptAll = None
     \<and> (\<forall>m. Query ROLLBACK (Some m)
           \<notin> set (events (syncHandler ServerJs sampleConfig acceptAll nullElementRequest oldStore)))"
    using h1 h2 h3 h4 h8 by simp
  have hp: "strictEquals (apiKey primitivesRequest) (envValue (API_KEY sampleConfig))
     \<and> data primitivesRequest = JArr [JStr (js ''abc''), JBool True, JNum (Finite 5)]
     \<and> list_all primitiveElement [JStr (js ''abc''), JBool True, JNum (Finite 5)]
     \<and> scalar (tableName primitivesRequest) \<and> connectError acceptAll = None
     \<and> (\<forall>st sql. rejects acceptAll st sql = None)"
    using p1 p2 p3 p4 h4 h5 by (intro conjI)
  note null = null_element_rolls_back
         [of nullElementRequest sampleConfig "[acme, JNull]" acceptAll ServerJs oldStore]
  from null[THEN conjunct1, THEN mp, OF hn] h5 h7
  have a: "replies (events (syncHandler ServerJs sampleConfig acceptAll nullElementRequest oldStore))
     = [Response 500 (Failed nullMessage)]"
    "committed (finalStore (syncHandler ServerJs sampleConfig acceptAll nullElementRequest oldStore))
       = committed oldStore"
    by blast+
  have pb: "primitiveElement (JBool True)" by simp
  from null_element_rolls_back
         [where cfg = sampleConfig and row = "JBool True" and v = ServerJs,
          THEN conjunct2, THEN conjunct1, THEN mp, OF pb]
  have b: "pushed ServerJs (numberToString sampleConfig) (JBool True)
             = Inr [JStr [], JStr [], JStr [], JStr []]"
    by (rule conjunct2[THEN conjunct2])
  from null_element_rolls_back
         [of primitivesRequest sampleConfig "[JStr (js ''abc''), JBool True, JNum (Finite 5)]"
             acceptAll ServerJs oldStore,
          THEN conjunct2, THEN conjunct2, THEN mp, OF hp]
  have c: "replies (events (syncHandler ServerJs sampleConfig acceptAll primitivesRequest oldStore))
       = [Response 200 (Inserted 3)]"
    by simp
  from a b c show ?thesis by (intro conjI)
qed

text \<open>
  The claim as it is written fails for the elements that are neither objects nor
  \<^verbatim>\<open>null\<close>: reading \<^verbatim>\<open>code\<close> of a number (a string, a boolean) gives
  \<^verbatim>\<open>undefined\<close> and throws nothing, so \<^verbatim>\<open>src/server.js\<close> inserts a row of empty
  strings for it and answers 200.
\<close>

theorem number_element_counterexample:
  "data numberElementRequest = JArr [JNum (Finite 5)]
   \<and> replies (events (syncHandler ServerJs sampleConfig acceptAll numberElementRequest sampleStore))
       = [Response 200 (Inserted 1)]
   \<and> committed (finalStore (syncHandler ServerJs sampleConfig acceptAll numberElementRequest sampleStore))
       (js ''rrc_clients'') = [[JStr [], JStr [], JStr [], JStr []]]"
  by code_simp

end
